theory Spec2Isabelle
  imports Complex_Main "HOL-Library.Sublist"
begin

section \<open>Strings as the line breaker uses them\<close>

text \<open>
  JavaScript strings are modelled as \<open>string\<close> (lists of 8-bit characters); the model
  therefore covers ASCII text. Numbers (widths, heights, coordinates) are JavaScript
  doubles in the source and are modelled as reals.
\<close>

text \<open>\<open>s.split(c)\<close> for a one-character separator: always at least one piece.\<close>

fun split_on :: "char \<Rightarrow> string \<Rightarrow> string list" where
  "split_on c [] = [[]]"
| "split_on c (x # xs) =
     (if x = c then [] # split_on c xs
      else (case split_on c xs of
              [] \<Rightarrow> [[x]]
            | w # ws \<Rightarrow> (x # w) # ws))"

abbreviation split_space :: "string \<Rightarrow> string list" where
  "split_space \<equiv> split_on CHR '' ''"

text \<open>\<open>words.join(' ')\<close>.\<close>

fun join_space :: "string list \<Rightarrow> string" where
  "join_space [] = []"
| "join_space [w] = w"
| "join_space (w # ws) = w @ '' '' @ join_space ws"

text \<open>The characters \<open>\s\<close> and \<open>trim\<close> treat as white space (ASCII part).\<close>

definition isSpace :: "char \<Rightarrow> bool" where
  "isSpace c \<longleftrightarrow> c \<in> {CHR '' '', CHR 0x09, CHR 0x0A, CHR 0x0B, CHR 0x0C, CHR 0x0D}"

definition trim :: "string \<Rightarrow> string" where
  "trim s = rev (dropWhile isSpace (rev (dropWhile isSpace s)))"

text \<open>Reading a flag array out of range gives \<open>undefined\<close>, which is falsy.\<close>

definition flagAt :: "bool list \<Rightarrow> nat \<Rightarrow> bool" where
  "flagAt flags i \<longleftrightarrow> i < length flags \<and> flags ! i"

section \<open>Orphan correction\<close>

text \<open>
  The body of the \<open>for\<close> loop of \<open>handleOrphans\<close> at index \<open>i\<close> (the loop runs over
  \<open>1 \<le> i < lines.length\<close>, so both reads are in range). \<open>pop\<close> takes the last piece
  of the previous line; \<open>if (lastWord)\<close> holds for a non-empty string.
\<close>

definition orphanStep :: "bool list \<Rightarrow> string list \<Rightarrow> nat \<Rightarrow> string list" where
  "orphanStep isLastLine lines i =
     (if flagAt isLastLine i \<and> length (split_space (lines ! i)) = 1 then
        (let previousLineWords = split_space (lines ! (i - 1));
             lastWord = last previousLineWords
         in if lastWord \<noteq> [] then
              (lines[i - 1 := join_space (butlast previousLineWords)])
                [i := lastWord @ '' '' @ lines ! i]
            else lines)
      else lines)"

definition handleOrphans :: "string list \<Rightarrow> bool list \<Rightarrow> string list" where
  "handleOrphans lines isLastLine =
     (if length lines < 2 then lines
      else foldl (orphanStep isLastLine) lines [1..<length lines])"

section \<open>Line breaking\<close>

record line_arrays =
  r_lines :: "string list"
  r_isLastLine :: "bool list"
  r_isFirstLine :: "bool list"

text \<open>\<open>globalStyles.parIndentWidth\<close>.\<close>

definition parIndentWidth :: real where
  "parIndentWidth = 18"

text \<open>
  \<open>addWordToLine\<close>: the font's \<open>widthOfTextAtSize\<close> is the parameter \<open>widthOf\<close>. The
  three arrays are mutated in the source and returned here (record \<open>line_arrays\<close>, its
  fields prefixed with \<open>r_\<close>) with the current line and the first-line flag.
\<close>

definition addWordToLine ::
  "(string \<Rightarrow> real \<Rightarrow> real) \<Rightarrow> real \<Rightarrow> real \<Rightarrow> string \<Rightarrow> string \<Rightarrow> bool \<Rightarrow> line_arrays
     \<Rightarrow> string \<times> bool \<times> line_arrays" where
  "addWordToLine widthOf fontSize maxWidth word currentLine isFirstLineOfParagraph arrs =
     (let potentialLine = currentLine @ (if currentLine \<noteq> [] then '' '' else []) @ word;
          potentialLineWidth = widthOf potentialLine fontSize
      in if potentialLineWidth \<le> maxWidth then (potentialLine, isFirstLineOfParagraph, arrs)
         else (word, False,
               arrs\<lparr>r_lines := r_lines arrs @ [trim currentLine],
                    r_isLastLine := r_isLastLine arrs @ [False],
                    r_isFirstLine := r_isFirstLine arrs @ [isFirstLineOfParagraph]\<rparr>))"

definition processLastLine :: "string \<Rightarrow> bool \<Rightarrow> line_arrays \<Rightarrow> line_arrays" where
  "processLastLine currentLine isFirstLineOfParagraph arrs =
     arrs\<lparr>r_lines := r_lines arrs @ [trim currentLine],
          r_isLastLine := r_isLastLine arrs @ [True],
          r_isFirstLine := r_isFirstLine arrs @ [isFirstLineOfParagraph]\<rparr>"

text \<open>One iteration of \<open>paragraphsAsWordArrays.forEach\<close>: the words of one paragraph.\<close>

definition wrapWords ::
  "(string \<Rightarrow> real \<Rightarrow> real) \<Rightarrow> real \<Rightarrow> real \<Rightarrow> string \<times> bool \<times> line_arrays \<Rightarrow> string list
     \<Rightarrow> string \<times> bool \<times> line_arrays" where
  "wrapWords widthOf fontSize textMaxWidth =
     foldl (\<lambda>(currentLine, isFirstLineOfParagraph, arrs) word.
        addWordToLine widthOf fontSize
          (if isFirstLineOfParagraph then textMaxWidth - parIndentWidth else textMaxWidth)
          word currentLine isFirstLineOfParagraph arrs)"

definition wrapParagraph ::
  "(string \<Rightarrow> real \<Rightarrow> real) \<Rightarrow> real \<Rightarrow> real \<Rightarrow> line_arrays \<Rightarrow> string list \<Rightarrow> line_arrays" where
  "wrapParagraph widthOf fontSize textMaxWidth arrs wordArray =
     (case wrapWords widthOf fontSize textMaxWidth ([], True, arrs) wordArray of
        (currentLine, isFirstLineOfParagraph, arrs') \<Rightarrow>
          if length (trim currentLine) > 0
          then processLastLine currentLine isFirstLineOfParagraph arrs'
          else arrs')"

definition createLines ::
  "string list list \<Rightarrow> (string \<Rightarrow> real \<Rightarrow> real) \<Rightarrow> real \<Rightarrow> real \<Rightarrow> line_arrays" where
  "createLines paragraphsAsWordArrays widthOf fontSize textMaxWidth =
     (let arrs = foldl (wrapParagraph widthOf fontSize textMaxWidth)
                   \<lparr>r_lines = [], r_isLastLine = [], r_isFirstLine = []\<rparr> paragraphsAsWordArrays
      in arrs\<lparr>r_lines := handleOrphans (r_lines arrs) (r_isLastLine arrs)\<rparr>)"

text \<open>
  A font for concrete runs: every character advances by half the font size, so the
  width of a text is additive over its characters.
\<close>

definition monoWidth :: "string \<Rightarrow> real \<Rightarrow> real" where
  "monoWidth s sz = real (length s) * sz / 2"

text \<open>
  The condition under which the loop of \<open>handleOrphans\<close> moves a word at index \<open>i\<close>,
  read on the list the function is given.
\<close>

definition movesAt :: "string list \<Rightarrow> bool list \<Rightarrow> nat \<Rightarrow> bool" where
  "movesAt lines isLastLine i \<longleftrightarrow>
     1 \<le> i \<and> i < length lines \<and> flagAt isLastLine i
     \<and> length (split_space (lines ! i)) = 1
     \<and> last (split_space (lines ! (i - 1))) \<noteq> []"

text \<open>
  Paragraphs are the runs of lines that end at a line flagged as last. An orphan is
  the one-word last line of a paragraph of two lines or more (the line before it is
  not the last of a paragraph) whose previous line ends in a non-empty word. A lone
  word is a one-word paragraph of a single line that is not the first line of the
  list.
\<close>

definition orphanAt :: "string list \<Rightarrow> bool list \<Rightarrow> nat \<Rightarrow> bool" where
  "orphanAt lines isLastLine i \<longleftrightarrow>
     1 \<le> i \<and> i < length lines \<and> flagAt isLastLine i \<and> \<not> flagAt isLastLine (i - 1)
     \<and> length (split_space (lines ! i)) = 1
     \<and> last (split_space (lines ! (i - 1))) \<noteq> []"

definition loneWordAt :: "string list \<Rightarrow> bool list \<Rightarrow> nat \<Rightarrow> bool" where
  "loneWordAt lines isLastLine i \<longleftrightarrow>
     1 \<le> i \<and> i < length lines \<and> flagAt isLastLine i \<and> flagAt isLastLine (i - 1)
     \<and> length (split_space (lines ! i)) = 1"

text \<open>
  The line of index \<open>j\<close> after the correction of orphans: it gives its last word to
  an orphan after it, receives the last word of the line before it when it is an
  orphan itself, and is unchanged otherwise.
\<close>

definition orphanResult :: "string list \<Rightarrow> bool list \<Rightarrow> nat \<Rightarrow> string" where
  "orphanResult lines isLastLine j =
     (if orphanAt lines isLastLine (Suc j)
      then join_space (butlast (split_space (lines ! j)))
      else if orphanAt lines isLastLine j
      then last (split_space (lines ! (j - 1))) @ '' '' @ lines ! j
      else lines ! j)"

text \<open>What holds of the list after the iterations \<open>1, \<dots>, k - 1\<close> of the loop.\<close>

definition orphanInv :: "string list \<Rightarrow> bool list \<Rightarrow> nat \<Rightarrow> string list \<Rightarrow> bool" where
  "orphanInv orig isLastLine k cur \<longleftrightarrow>
     length cur = length orig
     \<and> (\<forall>j. k \<le> j \<and> j < length orig \<longrightarrow> cur ! j = orig ! j)
     \<and> (\<forall>j. Suc j < k \<and> \<not> loneWordAt orig isLastLine j \<and> \<not> loneWordAt orig isLastLine (Suc j)
            \<longrightarrow> cur ! j = orphanResult orig isLastLine j)
     \<and> cur ! (k - 1) =
         (if movesAt orig isLastLine (k - 1)
          then last (split_space (orig ! (k - 1 - 1))) @ '' '' @ orig ! (k - 1)
          else orig ! (k - 1))"

section \<open>Text normaliser and chapter indexer\<close>

text \<open>\<open>textContent.split('\n')\<close>.\<close>

definition splitTextIntoParagraphs :: "string \<Rightarrow> string list" where
  "splitTextIntoParagraphs textContent = split_on CHR 0x0A textContent"

text \<open>
  \<open>paragraph.split(/\s+/)\<close>: the pieces between maximal runs of white space; a run
  at the start or the end leaves an empty piece, and the empty string gives one empty
  piece.
\<close>

function split_ws :: "string \<Rightarrow> string list" where
  "split_ws [] = [[]]"
| "split_ws (x # xs) =
     (if isSpace x then [] # split_ws (dropWhile isSpace xs)
      else (case split_ws xs of
              [] \<Rightarrow> [[x]]
            | w # ws \<Rightarrow> (x # w) # ws))"
  by pat_completeness auto
termination
  by (relation "measure length") (auto simp: length_dropWhile_le le_imp_less_Suc)

text \<open>\<open>\d\<close>.\<close>

definition isDigit :: "char \<Rightarrow> bool" where
  "isDigit c \<longleftrightarrow> c \<in> set ''0123456789''"

text \<open>
  The pattern \<open>/^CHAPTER \d+\. /\<close>: the matched text and what follows it. \<open>\d+\<close>
  is greedy and the next character must be the period, so it takes every digit.
\<close>

definition matchChapterPrefix :: "string \<Rightarrow> (string \<times> string) option" where
  "matchChapterPrefix s =
     (if take 8 s = ''CHAPTER '' then
        (let r = drop 8 s; ds = takeWhile isDigit r; r' = dropWhile isDigit r
         in if ds \<noteq> [] \<and> take 2 r' = ''. ''
            then Some (''CHAPTER '' @ ds @ ''. '', drop 2 r')
            else None)
      else None)"

definition getNewChapterIndices :: "string list \<Rightarrow> nat list" where
  "getNewChapterIndices lines =
     filter (\<lambda>index. matchChapterPrefix (lines ! index) \<noteq> None) [0..<length lines]"

text \<open>The characters the pattern \<open>.\<close> does not match.\<close>

definition isLineTerminator :: "char \<Rightarrow> bool" where
  "isLineTerminator c \<longleftrightarrow> c = CHR 0x0A \<or> c = CHR 0x0D"

text \<open>
  The group \<open>(.+)\<close> of \<open>(.+)\.\<close>, matched at the start of \<open>r\<close>: greedy, so it ends
  before the last period that has at least one character before it on the first line of
  \<open>r\<close>. The pattern has no end anchor.
\<close>

definition matchTitle :: "string \<Rightarrow> string option" where
  "matchTitle r =
     (let r0 = takeWhile (\<lambda>c. \<not> isLineTerminator c) r;
          ks = filter (\<lambda>k. r0 ! k = CHR ''.'') [1..<length r0]
      in if ks = [] then None else Some (take (last ks) r0))"

text \<open>\<open>toUpperCase\<close> on ASCII letters.\<close>

definition upperChar :: "char \<Rightarrow> char" where
  "upperChar c = (let n = (of_char c :: nat) in if 97 \<le> n \<and> n \<le> 122 then char_of (n - 32) else c)"

definition toUpperCase :: "string \<Rightarrow> string" where
  "toUpperCase s = map upperChar s"

definition capitalizeChapterTitle :: "string \<Rightarrow> string" where
  "capitalizeChapterTitle paragraph =
     (case matchChapterPrefix paragraph of
        None \<Rightarrow> paragraph
      | Some (chapterNumber, rest) \<Rightarrow>
          (case matchTitle rest of
             None \<Rightarrow> paragraph
           | Some title \<Rightarrow> chapterNumber @ toUpperCase title @ ''.''))"

text \<open>The test \<open>/^CHAPTER \d+\./i\<close> of \<open>drawTextLines\<close> (case-insensitive).\<close>

definition testChapterTitle :: "string \<Rightarrow> bool" where
  "testChapterTitle s \<longleftrightarrow>
     toUpperCase (take 8 s) = ''CHAPTER ''
     \<and> takeWhile isDigit (drop 8 s) \<noteq> []
     \<and> take 1 (dropWhile isDigit (drop 8 s)) = ''.''"

text \<open>
  The preparation of \<open>createPDF\<close> between reading the text and \<open>createLines\<close>.
  \<open>insertSpaceAfterDash\<close> acts on the em dash only, which is outside ASCII, and is the
  identity on the texts modelled here.
\<close>

definition paragraphsAsWordArrays :: "string \<Rightarrow> string list list" where
  "paragraphsAsWordArrays textContent =
     map split_ws (map capitalizeChapterTitle (splitTextIntoParagraphs textContent))"

section \<open>Justification renderer\<close>

text \<open>
  The calls made on a page, in order: \<open>drawText(text, {x, y, size})\<close> and
  \<open>drawRectangle({x, y, width, height})\<close>. Font, colour and the constant options are
  left out. A page is the list of the calls made on it.
\<close>

datatype draw_cmd =
  DrawText string real real real
| DrawRectangle real real real real

definition indentationWidth :: real where
  "indentationWidth = 18"

text \<open>The \<open>for\<close> loop over the words of a justified line.\<close>

fun drawWords ::
  "(string \<Rightarrow> real \<Rightarrow> real) \<Rightarrow> real \<Rightarrow> real \<Rightarrow> real \<Rightarrow> real \<Rightarrow> real \<Rightarrow> string list
     \<Rightarrow> draw_cmd list" where
  "drawWords widthOf yPos currentFontSize spaceWidth additionalSpaceWidth currentXPos [] = []"
| "drawWords widthOf yPos currentFontSize spaceWidth additionalSpaceWidth currentXPos (word # words) =
     DrawText word currentXPos yPos currentFontSize
     # drawWords widthOf yPos currentFontSize spaceWidth additionalSpaceWidth
         (currentXPos + (widthOf word currentFontSize + spaceWidth + additionalSpaceWidth)) words"

text \<open>\<open>drawJustifiedLine\<close>: the calls it makes on the page it is given.\<close>

definition drawJustifiedLine ::
  "string \<Rightarrow> real \<Rightarrow> real \<Rightarrow> real \<Rightarrow> real \<Rightarrow> (string \<Rightarrow> real \<Rightarrow> real) \<Rightarrow> real
     \<Rightarrow> bool \<Rightarrow> bool \<Rightarrow> bool \<Rightarrow> draw_cmd list" where
  "drawJustifiedLine line margin yPos fontSize chapterTitleFontSize widthOf textMaxWidth
       isLastLine isFirstLineOfParagraph isChapterTitle =
     (let words = split_space line;
          lineWidth = widthOf line fontSize;
          xPos = (if isFirstLineOfParagraph \<and> \<not> isChapterTitle
                  then margin + indentationWidth else margin);
          currentFontSize = (if isChapterTitle then chapterTitleFontSize else fontSize)
      in if isLastLine then [DrawText line xPos yPos currentFontSize]
         else
           (let availableWidth = (if isFirstLineOfParagraph \<and> \<not> isChapterTitle
                                  then textMaxWidth - indentationWidth else textMaxWidth);
                extraSpace = availableWidth - lineWidth;
                numSpaces = int (length words) - 1;
                spaceWidth = widthOf '' '' fontSize;
                additionalSpaceWidth =
                  (if numSpaces > 0 then extraSpace / real_of_int numSpaces else 0)
            in drawWords widthOf yPos currentFontSize spaceWidth additionalSpaceWidth
                 xPos words))"

text \<open>
  The horizontal extent a line covers on the page: from the x of its first call to the
  right edge of the text of its last call, measured at the size it is drawn in.
\<close>

definition lineExtent :: "(string \<Rightarrow> real \<Rightarrow> real) \<Rightarrow> draw_cmd list \<Rightarrow> real" where
  "lineExtent widthOf cmds =
     (if cmds = [] then 0
      else (case (hd cmds, last cmds) of
              (DrawText w0 x0 y0 s0, DrawText w x y s) \<Rightarrow> x + widthOf w s - x0
            | _ \<Rightarrow> 0))"

section \<open>Pagination engine\<close>

text \<open>The arguments of \<open>drawTextLines\<close> (the page apart), fields prefixed with \<open>a_\<close>.\<close>

record draw_args =
  a_lines :: "string list"
  a_margin :: real
  a_pageHeight :: real
  a_fontSize :: real
  a_chapterTitleFontSize :: real
  a_font :: "string \<Rightarrow> real \<Rightarrow> real"
  a_lineHeight :: real
  a_paragraphBreakHeight :: real
  a_textMaxWidth :: real
  a_newChapterIndices :: "nat list"
  a_isLastLine :: "bool list"
  a_isFirstLine :: "bool list"

text \<open>
  The variables of \<open>drawTextLines\<close>. \<open>page\<close> is the current page, the last of the
  document; \<open>donePages\<close> are the pages of the document before it, which
  \<open>page.doc.addPage()\<close> leaves as they are.
\<close>

record draw_state =
  donePages :: "draw_cmd list list"
  page :: "draw_cmd list"
  yPos :: real
  remainingSpace :: real
  lineIndex :: nat
  colonEncountered :: bool
  afterColonLineIndex :: int
  lastLineOfParagraph :: int
  remainingLinesInParagraph :: int

definition document :: "draw_state \<Rightarrow> draw_cmd list list" where
  "document st = donePages st @ [page st]"

definition initialState :: "draw_args \<Rightarrow> draw_cmd list list \<Rightarrow> draw_cmd list \<Rightarrow> draw_state" where
  "initialState a earlier pg =
     \<lparr>donePages = earlier, page = pg,
      yPos = a_pageHeight a - a_margin a,
      remainingSpace = (a_pageHeight a - a_margin a) - a_margin a,
      lineIndex = 0, colonEncountered = False, afterColonLineIndex = - 1,
      lastLineOfParagraph = - 1, remainingLinesInParagraph = 0\<rparr>"

definition startNewPage :: "draw_args \<Rightarrow> draw_state \<Rightarrow> draw_state" where
  "startNewPage a st =
     st\<lparr>donePages := donePages st @ [page st], page := [],
        yPos := a_pageHeight a - a_margin a,
        remainingSpace := (a_pageHeight a - a_margin a) - a_margin a\<rparr>"

definition calculateRemainingLinesInParagraph :: "draw_args \<Rightarrow> nat \<Rightarrow> int" where
  "calculateRemainingLinesInParagraph a startIndex =
     (case find (flagAt (a_isLastLine a)) [startIndex..<length (a_lines a)] of
        Some j \<Rightarrow> int j - int startIndex + 1
      | None \<Rightarrow> 0)"

definition isChapterTitle :: "draw_args \<Rightarrow> nat \<Rightarrow> bool" where
  "isChapterTitle a i \<longleftrightarrow>
     i \<in> set (a_newChapterIndices a) \<and> testChapterTitle (trim (a_lines a ! i))"

text \<open>
  The body of \<open>lines.forEach\<close> for the line of index \<open>i\<close>, one definition for each of
  its statements, in the order of the source.
\<close>

definition chapterRule :: "draw_args \<Rightarrow> nat \<Rightarrow> draw_state \<Rightarrow> draw_state" where
  "chapterRule a i st =
     (if isChapterTitle a i \<or> lineIndex st \<in> set (a_newChapterIndices a)
      then startNewPage a st else st)"

definition lookahead :: "draw_args \<Rightarrow> nat \<Rightarrow> draw_state \<Rightarrow> draw_state" where
  "lookahead a i st =
     (if flagAt (a_isFirstLine a) i
      then st\<lparr>remainingLinesInParagraph := calculateRemainingLinesInParagraph a i\<rparr>
      else st)"

definition orphanRule :: "draw_args \<Rightarrow> draw_state \<Rightarrow> draw_state" where
  "orphanRule a st =
     (if remainingLinesInParagraph st \<le> 3
         \<and> remainingSpace st < real_of_int (remainingLinesInParagraph st) * a_lineHeight a
      then startNewPage a st else st)"

definition widowRule :: "draw_args \<Rightarrow> nat \<Rightarrow> draw_state \<Rightarrow> draw_state" where
  "widowRule a i st =
     (if flagAt (a_isFirstLine a) i \<and> remainingSpace st < 3 * a_lineHeight a
         \<and> remainingLinesInParagraph st > 3
      then startNewPage a st else st)"

definition minSpaceRule :: "draw_args \<Rightarrow> draw_state \<Rightarrow> draw_state" where
  "minSpaceRule a st =
     (if remainingSpace st < a_lineHeight a then startNewPage a st else st)"

definition consume :: "real \<Rightarrow> draw_state \<Rightarrow> draw_state" where
  "consume h st = st\<lparr>yPos := yPos st - h, remainingSpace := remainingSpace st - h\<rparr>"

definition clearColon :: "draw_state \<Rightarrow> draw_state" where
  "clearColon st =
     st\<lparr>colonEncountered := False, afterColonLineIndex := - 1, lastLineOfParagraph := - 1\<rparr>"

definition placeBreak :: "draw_args \<Rightarrow> draw_state \<Rightarrow> draw_state" where
  "placeBreak a st =
     (let st1 = consume (a_paragraphBreakHeight a) st
      in if colonEncountered st1 \<and> lastLineOfParagraph st1 \<ge> 0
         then clearColon (consume (a_lineHeight a) st1) else st1)"

definition placeText :: "draw_args \<Rightarrow> nat \<Rightarrow> draw_state \<Rightarrow> draw_state" where
  "placeText a i st =
     (let line = a_lines a ! i;
          st1 = consume (a_lineHeight a)
                  (st\<lparr>page := page st @
                       drawJustifiedLine line (a_margin a) (yPos st) (a_fontSize a)
                         (a_chapterTitleFontSize a) (a_font a) (a_textMaxWidth a)
                         (flagAt (a_isLastLine a) i) (flagAt (a_isFirstLine a) i)
                         (isChapterTitle a i)\<rparr>);
          st2 = st1\<lparr>remainingLinesInParagraph := remainingLinesInParagraph st1 - 1\<rparr>;
          st3 = (if line \<noteq> [] \<and> last line = CHR '':''
                 then (consume (a_lineHeight a) st2)
                        \<lparr>colonEncountered := True, afterColonLineIndex := int i\<rparr>
                 else st2);
          st4 = (if flagAt (a_isLastLine a) i then st3\<lparr>lastLineOfParagraph := int i\<rparr> else st3);
          st5 = (if colonEncountered st4 \<and> lastLineOfParagraph st4 > afterColonLineIndex st4
                 then clearColon (consume (a_lineHeight a) st4) else st4)
      in if isChapterTitle a i then consume (a_lineHeight a) st5 else st5)"

definition placeLine :: "draw_args \<Rightarrow> nat \<Rightarrow> draw_state \<Rightarrow> draw_state" where
  "placeLine a i st =
     (if a_lines a ! i = [] then placeBreak a st else placeText a i st)"

definition processLine :: "draw_args \<Rightarrow> draw_state \<Rightarrow> nat \<Rightarrow> draw_state" where
  "processLine a st i =
     (let st' = placeLine a i
                  (minSpaceRule a (widowRule a i (orphanRule a (lookahead a i (chapterRule a i st)))))
      in st'\<lparr>lineIndex := lineIndex st' + 1\<rparr>)"

text \<open>The state after the lines of index below \<open>k\<close>, and the whole of \<open>drawTextLines\<close>.\<close>

definition runLines :: "draw_args \<Rightarrow> draw_state \<Rightarrow> nat \<Rightarrow> draw_state" where
  "runLines a st k = foldl (processLine a) st [0..<k]"

definition drawTextLines :: "draw_args \<Rightarrow> draw_cmd list list \<Rightarrow> draw_cmd list \<Rightarrow> draw_state" where
  "drawTextLines a earlier pg = runLines a (initialState a earlier pg) (length (a_lines a))"

text \<open>
  The state on which the orphan rule acts for the line of index \<open>i\<close>, in a run from
  \<open>st\<close>; the top of a page; the calls for the line of index \<open>i\<close> placed at height
  \<open>y\<close> (none for an empty line).
\<close>

definition beforeOrphanRule :: "draw_args \<Rightarrow> draw_state \<Rightarrow> nat \<Rightarrow> draw_state" where
  "beforeOrphanRule a st i = lookahead a i (chapterRule a i (runLines a st i))"

text \<open>
  The lines of the paragraph that starts at \<open>s\<close> still to be placed when the line of
  index \<open>i\<close> is reached: the count of the lookahead at \<open>s\<close> less the lines before \<open>i\<close>.
  The rest of the iteration for the line of index \<open>i\<close>, after the orphan rule.
\<close>

definition linesLeft :: "draw_args \<Rightarrow> nat \<Rightarrow> nat \<Rightarrow> int" where
  "linesLeft a s i = calculateRemainingLinesInParagraph a s - int (i - s)"

definition afterOrphanRule :: "draw_args \<Rightarrow> nat \<Rightarrow> draw_state \<Rightarrow> draw_state" where
  "afterOrphanRule a i st =
     (let st' = placeLine a i (minSpaceRule a (widowRule a i st))
      in st'\<lparr>lineIndex := lineIndex st' + 1\<rparr>)"

definition pageTop :: "draw_args \<Rightarrow> real" where
  "pageTop a = a_pageHeight a - a_margin a"

definition lineCommands :: "draw_args \<Rightarrow> nat \<Rightarrow> real \<Rightarrow> draw_cmd list" where
  "lineCommands a i y =
     (if a_lines a ! i = [] then []
      else drawJustifiedLine (a_lines a ! i) (a_margin a) y (a_fontSize a)
             (a_chapterTitleFontSize a) (a_font a) (a_textMaxWidth a)
             (flagAt (a_isLastLine a) i) (flagAt (a_isFirstLine a) i) (isChapterTitle a i))"

text \<open>
  One document is an extension of another when it has all its pages, each with the
  same calls at its start.
\<close>

definition extends :: "draw_cmd list list \<Rightarrow> draw_cmd list list \<Rightarrow> bool" where
  "extends d d' \<longleftrightarrow>
     length d \<le> length d' \<and> (\<forall>p. p < length d \<longrightarrow> prefix (d ! p) (d' ! p))"

text \<open>A page on which nothing has been placed, the cursor at its top.\<close>

definition freshPage :: "draw_args \<Rightarrow> draw_state \<Rightarrow> bool" where
  "freshPage a st \<longleftrightarrow> page st = [] \<and> yPos st = pageTop a"

section \<open>Page number overlay and the whole run\<close>

text \<open>The decimal text of a page number (the template literal of the source).\<close>

function showNat :: "nat \<Rightarrow> string" where
  "showNat n =
     (if n < 10 then [char_of (48 + n)]
      else showNat (n div 10) @ [char_of (48 + n mod 10)])"
  by pat_completeness auto
termination
  by (relation "measure id") auto

text \<open>
  The overlay drawn on the page of index \<open>i\<close>: the number and the rule above it.
  \<open>margin\<close> is \<open>globalStyles.margin\<close>, 100; the width of the pages and the font of the
  numbers are parameters.
\<close>

definition pageNumberOverlay :: "(string \<Rightarrow> real \<Rightarrow> real) \<Rightarrow> real \<Rightarrow> nat \<Rightarrow> draw_cmd list" where
  "pageNumberOverlay pageNumberFont width i =
     (let pageNumberFontSize = 10;
          pageNumberMargin = 100 / 1.25;
          pageNumber = i + 1;
          pageNumberText = showNat pageNumber;
          pageNumberWidth = pageNumberFont pageNumberText pageNumberFontSize;
          pageNumberX = width / 2 - pageNumberWidth / 2;
          pageNumberY = pageNumberMargin;
          lineWidth = pageNumberWidth + 10;
          lineHeight = 0.5;
          lineX = pageNumberX - 5;
          lineY = pageNumberY + pageNumberFontSize + 5
      in [DrawText pageNumberText pageNumberX pageNumberY pageNumberFontSize,
          DrawRectangle lineX lineY lineWidth lineHeight])"

definition addPageNumbers ::
  "(string \<Rightarrow> real \<Rightarrow> real) \<Rightarrow> real \<Rightarrow> draw_cmd list list \<Rightarrow> draw_cmd list list" where
  "addPageNumbers pageNumberFont width pages =
     map (\<lambda>i. pages ! i @ pageNumberOverlay pageNumberFont width i) [0..<length pages]"

text \<open>
  \<open>createPDF\<close>, from the text read to the pages saved. The document starts with one
  page, which is handed to \<open>drawTextLines\<close>. The styles are the constants of
  \<open>textStyles\<close>; the size of the pages and the two fonts are parameters.
\<close>

definition createPDF ::
  "(string \<Rightarrow> real \<Rightarrow> real) \<Rightarrow> (string \<Rightarrow> real \<Rightarrow> real) \<Rightarrow> real \<Rightarrow> real \<Rightarrow> string
     \<Rightarrow> draw_cmd list list" where
  "createPDF font pageNumberFont width height textContent =
     (let margin = 100; paragraphBreakHeight = 10;
          fontSize = 14; lineHeight = 20; chapterTitleFontSize = 18;
          textMaxWidth = width - 2 * margin;
          arrs = createLines (paragraphsAsWordArrays textContent) font fontSize textMaxWidth;
          newChapterIndices = getNewChapterIndices (r_lines arrs);
          result = drawTextLines
                     \<lparr>a_lines = r_lines arrs, a_margin = margin, a_pageHeight = height,
                      a_fontSize = fontSize, a_chapterTitleFontSize = chapterTitleFontSize,
                      a_font = font, a_lineHeight = lineHeight,
                      a_paragraphBreakHeight = paragraphBreakHeight,
                      a_textMaxWidth = textMaxWidth, a_newChapterIndices = newChapterIndices,
                      a_isLastLine = r_isLastLine arrs, a_isFirstLine = r_isFirstLine arrs\<rparr>
                     [] []
      in addPageNumbers pageNumberFont width (document result))"

section \<open>Inputs for concrete runs\<close>


text \<open>A paragraph of four lines on a page with room for three and a half.\<close>

definition shortPageArgs :: draw_args where
  "shortPageArgs =
     \<lparr>a_lines = [''a'', ''b'', ''c'', ''d''], a_margin = 100, a_pageHeight = 270,
      a_fontSize = 14, a_chapterTitleFontSize = 18, a_font = monoWidth, a_lineHeight = 20,
      a_paragraphBreakHeight = 10, a_textMaxWidth = 400, a_newChapterIndices = [],
      a_isLastLine = [False, False, False, True],
      a_isFirstLine = [True, False, False, False]\<rparr>"

text \<open>A chapter heading at index 1, after one line of text.\<close>

definition chapterArgs :: draw_args where
  "chapterArgs =
     \<lparr>a_lines = [''Foreword.'', ''CHAPTER 1. ONE.''], a_margin = 100, a_pageHeight = 800,
      a_fontSize = 14, a_chapterTitleFontSize = 18, a_font = monoWidth, a_lineHeight = 20,
      a_paragraphBreakHeight = 10, a_textMaxWidth = 400, a_newChapterIndices = [1],
      a_isLastLine = [True, True], a_isFirstLine = [True, True]\<rparr>"

lemmas wrap_defs = createLines_def wrapParagraph_def wrapWords_def addWordToLine_def
  processLastLine_def monoWidth_def parIndentWidth_def trim_def isSpace_def
  handleOrphans_def orphanStep_def flagAt_def

section \<open>Properties of orphan correction\<close>

lemma split_on_not_Nil: "split_on c s \<noteq> []"
  by (induction s) (auto split: list.splits)

lemma split_on_append: "split_on c (a @ c # b) = split_on c a @ split_on c b"
proof (induction a)
  case Nil
  show ?case by simp
next
  case (Cons x a)
  obtain w ws where ws: "split_on c a = w # ws"
    using split_on_not_Nil [of c a] by (cases "split_on c a") auto
  show ?case using Cons ws by simp
qed

lemma last_split_on_append:
  "last (split_on c (a @ c # b)) = last (split_on c b)"
  by (simp add: split_on_append split_on_not_Nil)

lemma length_orphanStep: "length (orphanStep isLastLine cur i) = length cur"
  by (simp add: orphanStep_def Let_def)

lemma movesAt_orphanAt:
  "\<not> loneWordAt lines isLastLine i \<Longrightarrow> movesAt lines isLastLine i = orphanAt lines isLastLine i"
  by (auto simp: movesAt_def orphanAt_def loneWordAt_def)

lemma orphanAt_movesAt: "orphanAt lines isLastLine i \<Longrightarrow> movesAt lines isLastLine i"
  by (simp add: movesAt_def orphanAt_def)

lemma orphanAt_previous_not_moved:
  "orphanAt lines isLastLine (Suc i) \<Longrightarrow> \<not> movesAt lines isLastLine i"
  by (simp add: movesAt_def orphanAt_def)

lemma orphanInv_step:
  assumes inv: "orphanInv orig isLastLine k cur" and k: "1 \<le> k" "k < length orig"
  shows "orphanInv orig isLastLine (Suc k) (orphanStep isLastLine cur k)"
proof -
  from inv have len: "length cur = length orig"
    and same: "\<And>j. k \<le> j \<Longrightarrow> j < length orig \<Longrightarrow> cur ! j = orig ! j"
    and settled: "\<And>j. Suc j < k \<Longrightarrow> \<not> loneWordAt orig isLastLine j
                    \<Longrightarrow> \<not> loneWordAt orig isLastLine (Suc j)
                    \<Longrightarrow> cur ! j = orphanResult orig isLastLine j"
    and prev: "cur ! (k - 1) =
                 (if movesAt orig isLastLine (k - 1)
                  then last (split_space (orig ! (k - 1 - 1))) @ '' '' @ orig ! (k - 1)
                  else orig ! (k - 1))"
    by (auto simp: orphanInv_def)
  have curk: "cur ! k = orig ! k" using same k by simp
  have lst: "last (split_space (cur ! (k - 1))) = last (split_space (orig ! (k - 1)))"
    unfolding prev by (simp add: last_split_on_append)
  have cond: "(flagAt isLastLine k \<and> length (split_space (cur ! k)) = 1
                \<and> last (split_space (cur ! (k - 1))) \<noteq> []) = movesAt orig isLastLine k"
    unfolding curk lst using k by (simp add: movesAt_def)
  have Sk: "Suc (k - 1) = k" "Suc (k - Suc 0) = k" using k by simp_all
  show ?thesis
  proof (cases "movesAt orig isLastLine k")
    case False
    then have eq: "orphanStep isLastLine cur k = cur"
      using cond by (auto simp: orphanStep_def Let_def)
    have s': "cur ! j = orphanResult orig isLastLine j"
      if j: "Suc j < Suc k" "\<not> loneWordAt orig isLastLine j" "\<not> loneWordAt orig isLastLine (Suc j)"
      for j
    proof (cases "Suc j < k")
      case True
      then show ?thesis using settled j by simp
    next
      case F: False
      then have jk: "j = k - 1" using j(1) by simp
      have "\<not> orphanAt orig isLastLine k" using False orphanAt_movesAt by blast
      then have "orphanResult orig isLastLine (k - 1) =
                   (if orphanAt orig isLastLine (k - 1)
                    then last (split_space (orig ! (k - 1 - 1))) @ '' '' @ orig ! (k - 1)
                    else orig ! (k - 1))"
        by (simp add: orphanResult_def Sk)
      moreover have "movesAt orig isLastLine (k - 1) = orphanAt orig isLastLine (k - 1)"
        using j(2) jk by (simp add: movesAt_orphanAt)
      ultimately show ?thesis unfolding jk prev by simp
    qed
    have p': "cur ! (Suc k - 1) =
                (if movesAt orig isLastLine (Suc k - 1)
                 then last (split_space (orig ! (Suc k - 1 - 1))) @ '' '' @ orig ! (Suc k - 1)
                 else orig ! (Suc k - 1))"
      using False curk by simp
    show ?thesis
      unfolding orphanInv_def eq using len same s' p' by auto
  next
    case True
    let ?lw = "last (split_space (cur ! (k - 1)))"
    let ?new = "(cur[k - 1 := join_space (butlast (split_space (cur ! (k - 1))))])
                  [k := ?lw @ '' '' @ cur ! k]"
    from True have eq: "orphanStep isLastLine cur k = ?new"
      using cond by (simp add: orphanStep_def Let_def)
    have l1: "length ?new = length orig" using len by simp
    have l2: "?new ! j = orig ! j" if "Suc k \<le> j" "j < length orig" for j
      using same len that by simp
    have l3: "?new ! j = orphanResult orig isLastLine j"
      if j: "Suc j < Suc k" "\<not> loneWordAt orig isLastLine j" "\<not> loneWordAt orig isLastLine (Suc j)"
      for j
    proof (cases "Suc j < k")
      case T: True
      then have "?new ! j = cur ! j" by simp
      then show ?thesis using settled T j by simp
    next
      case F: False
      then have jk: "j = k - 1" using j(1) by simp
      have lone: "\<not> loneWordAt orig isLastLine k" using j(3) jk Sk by simp
      have at: "orphanAt orig isLastLine k"
        using True lone by (simp add: movesAt_orphanAt)
      then have "\<not> movesAt orig isLastLine (k - 1)"
        using orphanAt_previous_not_moved [of orig isLastLine "k - 1"] Sk by simp
      then have "cur ! (k - 1) = orig ! (k - 1)" using prev by simp
      moreover have "?new ! (k - 1) = join_space (butlast (split_space (cur ! (k - 1))))"
        using len k by simp
      moreover have "orphanResult orig isLastLine (k - 1) =
                       join_space (butlast (split_space (orig ! (k - 1))))"
        using at by (simp add: orphanResult_def Sk)
      ultimately show ?thesis unfolding jk by simp
    qed
    have "?new ! k = ?lw @ '' '' @ orig ! k" using len k curk by simp
    then have l4: "?new ! (Suc k - 1) =
                (if movesAt orig isLastLine (Suc k - 1)
                 then last (split_space (orig ! (Suc k - 1 - 1))) @ '' '' @ orig ! (Suc k - 1)
                 else orig ! (Suc k - 1))"
      using True lst by simp
    show ?thesis
      unfolding orphanInv_def eq using l1 l2 l3 l4 by blast
  qed
qed

lemma orphanInv_fold:
  "1 \<le> k \<Longrightarrow> k \<le> length orig
     \<Longrightarrow> orphanInv orig isLastLine k (foldl (orphanStep isLastLine) orig [1..<k])"
proof (induction k)
  case 0
  then show ?case by simp
next
  case (Suc k)
  show ?case
  proof (cases "k = 0")
    case True
    then show ?thesis by (simp add: orphanInv_def movesAt_def)
  next
    case False
    then have "orphanInv orig isLastLine k (foldl (orphanStep isLastLine) orig [1..<k])"
      using Suc by simp
    then have "orphanInv orig isLastLine (Suc k)
                 (orphanStep isLastLine (foldl (orphanStep isLastLine) orig [1..<k]) k)"
      using orphanInv_step False Suc.prems by simp
    then show ?thesis using False by simp
  qed
qed

lemma length_handleOrphans: "length (handleOrphans lines isLastLine) = length lines"
proof -
  have "length (foldl (orphanStep isLastLine) xs is) = length xs" for xs "is"
    by (induction "is" arbitrary: xs) (simp_all add: length_orphanStep)
  then show ?thesis by (simp add: handleOrphans_def)
qed

lemma handleOrphans_nth:
  assumes "j < length lines"
    and "\<not> loneWordAt lines isLastLine j" and "\<not> loneWordAt lines isLastLine (Suc j)"
  shows "handleOrphans lines isLastLine ! j = orphanResult lines isLastLine j"
proof (cases "length lines < 2")
  case True
  then have "j = 0" and "\<not> orphanAt lines isLastLine (Suc j)" and "\<not> orphanAt lines isLastLine j"
    using assms(1) by (auto simp: orphanAt_def)
  then show ?thesis using True by (simp add: handleOrphans_def orphanResult_def)
next
  case False
  let ?n = "length lines"
  let ?r = "foldl (orphanStep isLastLine) lines [1..<?n]"
  have r: "handleOrphans lines isLastLine = ?r" using False by (simp add: handleOrphans_def)
  have inv: "orphanInv lines isLastLine ?n ?r"
    using False by (intro orphanInv_fold) simp_all
  show ?thesis
  proof (cases "Suc j < ?n")
    case True
    then show ?thesis
      using inv assms unfolding r orphanInv_def by blast
  next
    case F: False
    then have jn: "j = ?n - 1" using assms(1) by simp
    have "\<not> orphanAt lines isLastLine (Suc j)" using F by (simp add: orphanAt_def)
    then have "orphanResult lines isLastLine j =
                 (if orphanAt lines isLastLine j
                  then last (split_space (lines ! (j - 1))) @ '' '' @ lines ! j
                  else lines ! j)"
      by (simp add: orphanResult_def)
    moreover have "movesAt lines isLastLine j = orphanAt lines isLastLine j"
      using assms(2) by (simp add: movesAt_orphanAt)
    moreover have "?r ! j =
                 (if movesAt lines isLastLine j
                  then last (split_space (lines ! (j - 1))) @ '' '' @ lines ! j
                  else lines ! j)"
      using inv unfolding orphanInv_def jn by simp
    ultimately show ?thesis unfolding r by simp
  qed
qed

text \<open>
  Claim C2, as amended. Away from one-word paragraphs of a single line, the correction
  moves a word exactly at the orphans: the one-word last line of a paragraph of two
  lines or more receives, in front, the last word of the line before it, when that word
  is not empty; the line before it gives that word, also when it is its only word, and
  is then left empty; every other line is unchanged. What happens at a one-word
  paragraph of a single line and at the line before it is not part of the statement.
\<close>

theorem handleOrphans_moves_exactly_orphans:
  assumes "j < length lines"
    and "\<not> loneWordAt lines isLastLine j" and "\<not> loneWordAt lines isLastLine (Suc j)"
  shows "handleOrphans lines isLastLine ! j =
           (if orphanAt lines isLastLine (Suc j)
            then join_space (butlast (split_space (lines ! j)))
            else if orphanAt lines isLastLine j
            then last (split_space (lines ! (j - 1))) @ '' '' @ lines ! j
            else lines ! j)"
  using handleOrphans_nth [OF assms] by (simp add: orphanResult_def)

theorem handleOrphans_moves_exactly_orphans_witness:
  "\<not> loneWordAt [''A'', ''B''] [False, True] 0
   \<and> \<not> loneWordAt [''A'', ''B''] [False, True] (Suc 0)
   \<and> \<not> loneWordAt [''A'', ''B''] [False, True] (Suc (Suc 0))
   \<and> orphanAt [''A'', ''B''] [False, True] (Suc 0)
   \<and> handleOrphans [''A'', ''B''] [False, True] ! 0 = ''''
   \<and> handleOrphans [''A'', ''B''] [False, True] ! Suc 0 = ''A B''"
proof -
  have l0: "\<not> loneWordAt [''A'', ''B''] [False, True] 0"
    and l1: "\<not> loneWordAt [''A'', ''B''] [False, True] (Suc 0)"
    and l2: "\<not> loneWordAt [''A'', ''B''] [False, True] (Suc (Suc 0))"
    by (simp_all add: loneWordAt_def flagAt_def)
  have o0: "\<not> orphanAt [''A'', ''B''] [False, True] 0"
    and o1: "orphanAt [''A'', ''B''] [False, True] (Suc 0)"
    and o2: "\<not> orphanAt [''A'', ''B''] [False, True] (Suc (Suc 0))"
    by (simp_all add: orphanAt_def flagAt_def)
  have "handleOrphans [''A'', ''B''] [False, True] ! 0 = ''''"
    using handleOrphans_moves_exactly_orphans [of 0 "[''A'', ''B'']" "[False, True]", OF _ l0 l1] o1
    by simp
  moreover have "handleOrphans [''A'', ''B''] [False, True] ! Suc 0 = ''A B''"
    using handleOrphans_moves_exactly_orphans
            [of "Suc 0" "[''A'', ''B'']" "[False, True]", OF _ l1 l2] o1 o2
    by simp
  ultimately show ?thesis using l0 l1 l2 o1 by blast
qed

text \<open>
  Claim C2, as stated, fails: in a paragraph of two lines whose first line holds the
  single word \<open>A\<close>, the correction moves that word although the previous line has
  fewer than two words, and leaves the previous line empty.
\<close>

theorem handleOrphans_single_word_previous_counterexample:
  "length (split_space ([''A'', ''B''] ! 0)) = 1
   \<and> handleOrphans [''A'', ''B''] [False, True] = ['''', ''A B'']"
  by (simp add: handleOrphans_def orphanStep_def flagAt_def)

text \<open>
  Claim C7 fails on the code. The paragraphs \<open>p q r\<close> and \<open>s\<close>, with room for three
  characters on a first line, wrap to \<open>p q\<close>, \<open>r\<close> and \<open>s\<close>. The correction, run over
  the whole list, first completes \<open>r\<close> to \<open>q r\<close> and then takes \<open>r\<close> away again for
  the one-word paragraph \<open>s\<close>: the first paragraph has two lines and its last line
  (index 1, flagged last and not first) is left with the single word \<open>q\<close>.
\<close>

theorem createLines_orphan_left_behind:
  "createLines [[''p'', ''q'', ''r''], [''s'']] monoWidth 2 21 =
     \<lparr>r_lines = [''p'', ''q'', ''r s''],
      r_isLastLine = [False, True, True],
      r_isFirstLine = [True, False, True]\<rparr>
   \<and> length (split_space ([''p'', ''q'', ''r s''] ! 1)) = 1"
  by (simp add: wrap_defs upt_conv_Cons)

section \<open>Properties of the text normaliser and the chapter indexer\<close>

lemma matchChapterPrefix_SomeD:
  assumes m: "matchChapterPrefix s \<noteq> None"
  shows "\<exists>ds rest. ds \<noteq> [] \<and> (\<forall>d\<in>set ds. isDigit d) \<and> s = ''CHAPTER '' @ ds @ ''. '' @ rest"
proof -
  let ?r = "drop 8 s"
  have t8: "take 8 s = ''CHAPTER ''"
    using m unfolding matchChapterPrefix_def by (rule contrapos_np) simp
  have both: "takeWhile isDigit ?r \<noteq> [] \<and> take 2 (dropWhile isDigit ?r) = ''. ''"
    using m unfolding matchChapterPrefix_def Let_def if_P [OF t8]
    by (rule contrapos_np) simp
  then have ds: "takeWhile isDigit ?r \<noteq> []"
    and t2: "take 2 (dropWhile isDigit ?r) = ''. ''"
    by blast+
  have "s = take 8 s @ ?r" by simp
  also have "?r = takeWhile isDigit ?r @ dropWhile isDigit ?r" by simp
  also have "dropWhile isDigit ?r = take 2 (dropWhile isDigit ?r) @ drop 2 (dropWhile isDigit ?r)"
    by simp
  finally have eq: "s = ''CHAPTER '' @ takeWhile isDigit ?r @ ''. '' @ drop 2 (dropWhile isDigit ?r)"
    using t8 t2 by simp
  have dg: "\<forall>d\<in>set (takeWhile isDigit ?r). isDigit d"
    by (auto dest: set_takeWhileD)
  show ?thesis
    apply (rule exI [of _ "takeWhile isDigit ?r"])
    apply (rule exI [of _ "drop 2 (dropWhile isDigit ?r)"])
    apply (intro conjI)
      apply (rule ds)
     apply (rule dg)
    apply (rule eq)
    done
qed

lemma matchChapterPrefix_SomeI:
  assumes ds: "ds \<noteq> []" "\<forall>d\<in>set ds. isDigit d"
  shows "matchChapterPrefix (''CHAPTER '' @ ds @ ''. '' @ rest) \<noteq> None"
proof -
  have nd: "\<not> isDigit CHR ''.''" by (simp add: isDigit_def)
  have tw: "takeWhile isDigit (ds @ ''. '' @ rest) = ds"
    using ds(2) nd by (simp add: takeWhile_append2)
  have dw: "dropWhile isDigit (ds @ ''. '' @ rest) = ''. '' @ rest"
    using ds(2) nd by (simp add: dropWhile_append2)
  show ?thesis
    using ds(1) tw dw by (simp add: matchChapterPrefix_def Let_def)
qed

text \<open>
  Claim C6, as amended. An index is recorded as a chapter start exactly when the line
  there begins with \<open>CHAPTER\<close>, one space, one or more digits, a period and a space;
  nothing is asked of what follows, so neither a title nor a closing period is needed.
\<close>

theorem getNewChapterIndices_prefix_only:
  "index \<in> set (getNewChapterIndices lines) \<longleftrightarrow>
     index < length lines
     \<and> (\<exists>ds rest. ds \<noteq> [] \<and> (\<forall>d\<in>set ds. isDigit d)
           \<and> lines ! index = ''CHAPTER '' @ ds @ ''. '' @ rest)"
proof -
  have "matchChapterPrefix (lines ! index) \<noteq> None \<longleftrightarrow>
          (\<exists>ds rest. ds \<noteq> [] \<and> (\<forall>d\<in>set ds. isDigit d)
             \<and> lines ! index = ''CHAPTER '' @ ds @ ''. '' @ rest)"
    using matchChapterPrefix_SomeD [of "lines ! index"] matchChapterPrefix_SomeI
    by metis
  then show ?thesis
    unfolding getNewChapterIndices_def by simp
qed

theorem getNewChapterIndices_prefix_only_witness:
  "0 \<in> set (getNewChapterIndices [''CHAPTER 12. x''])
   \<and> (\<exists>ds rest. ds \<noteq> [] \<and> (\<forall>d\<in>set ds. isDigit d)
          \<and> [''CHAPTER 12. x''] ! 0 = ''CHAPTER '' @ ds @ ''. '' @ rest)"
proof -
  have rhs: "\<exists>ds rest. ds \<noteq> [] \<and> (\<forall>d\<in>set ds. isDigit d)
          \<and> [''CHAPTER 12. x''] ! 0 = ''CHAPTER '' @ ds @ ''. '' @ rest"
    by (rule exI [of _ "''12''"], rule exI [of _ "''x''"]) (simp add: isDigit_def)
  then show ?thesis
    using getNewChapterIndices_prefix_only [of 0 "[''CHAPTER 12. x'']"] by simp
qed

text \<open>
  Claim C6, as stated, fails: a line without the closing period is recorded as a
  chapter start.
\<close>

theorem getNewChapterIndices_no_period_counterexample:
  "getNewChapterIndices [''CHAPTER 1. The beginning''] = [0]"
  by code_simp

text \<open>
  Claim C5 fails on the code. The heading below does not end in a period, so the claim
  has it returned unchanged; the pattern has no end anchor, matches up to the period of
  \<open>Mr.\<close>, and the result is rebuilt from the two groups only: the words after that
  period are lost.
\<close>

theorem capitalizeChapterTitle_drops_tail:
  "capitalizeChapterTitle ''CHAPTER 1. Mr. Smith arrives'' = ''CHAPTER 1. MR.''"
  by code_simp

lemma wrapParagraph_blank:
  assumes "widthOf [] fontSize \<le> textMaxWidth - parIndentWidth"
  shows "wrapParagraph widthOf fontSize textMaxWidth arrs [[]] = arrs"
  using assms by (simp add: wrapParagraph_def wrapWords_def addWordToLine_def trim_def)

lemma blank_paragraph_words: "split_ws (capitalizeChapterTitle []) = [[]]"
  by (simp add: capitalizeChapterTitle_def matchChapterPrefix_def)

text \<open>
  Claim C4, as amended. A blank line of the text becomes the word array with one empty
  word, and \<open>createLines\<close> adds no line for it: the result is the one for the text
  without the blank line, when the empty text is not wider than a first line (a font
  gives it width 0).
\<close>

theorem createLines_drops_blank_paragraph:
  assumes "widthOf [] fontSize \<le> textMaxWidth - parIndentWidth"
  shows "createLines (ps1 @ [split_ws (capitalizeChapterTitle [])] @ ps2)
             widthOf fontSize textMaxWidth
         = createLines (ps1 @ ps2) widthOf fontSize textMaxWidth"
  unfolding createLines_def blank_paragraph_words
  using assms by (simp add: wrapParagraph_blank [of widthOf fontSize textMaxWidth])

theorem createLines_drops_blank_paragraph_witness:
  "monoWidth [] 2 \<le> 100 - parIndentWidth
   \<and> createLines ([[''a'', ''b'']] @ [split_ws (capitalizeChapterTitle [])] @ [[''c'', ''d'']])
        monoWidth 2 100
     = createLines ([[''a'', ''b'']] @ [[''c'', ''d'']]) monoWidth 2 100"
proof -
  have h: "monoWidth [] 2 \<le> 100 - parIndentWidth"
    by (simp add: monoWidth_def parIndentWidth_def)
  show ?thesis
    using h createLines_drops_blank_paragraph
            [of monoWidth 2 100 "[[''a'', ''b'']]" "[[''c'', ''d'']]"]
    by simp
qed

text \<open>
  Claim C4, as stated, fails: the text of two paragraphs with a blank line between them
  gives two lines and no empty one.
\<close>

theorem createLines_blank_line_counterexample:
  "splitTextIntoParagraphs (''a b'' @ [CHR 0x0A, CHR 0x0A] @ ''c d'') = [''a b'', '''', ''c d'']
   \<and> createLines (paragraphsAsWordArrays (''a b'' @ [CHR 0x0A, CHR 0x0A] @ ''c d'')) monoWidth 2 100
     = \<lparr>r_lines = [''a b'', ''c d''],
        r_isLastLine = [True, True],
        r_isFirstLine = [True, True]\<rparr>"
  by code_simp

section \<open>Properties of the pagination engine\<close>

lemma startNewPage_fields:
  "donePages (startNewPage a st) = donePages st @ [page st]"
  "page (startNewPage a st) = []"
  "yPos (startNewPage a st) = pageTop a"
  "remainingSpace (startNewPage a st) = pageTop a - a_margin a"
  "lineIndex (startNewPage a st) = lineIndex st"
  "remainingLinesInParagraph (startNewPage a st) = remainingLinesInParagraph st"
  by (simp_all add: startNewPage_def pageTop_def)

lemma consume_fields:
  "donePages (consume h st) = donePages st"
  "page (consume h st) = page st"
  "yPos (consume h st) = yPos st - h"
  "remainingSpace (consume h st) = remainingSpace st - h"
  "lineIndex (consume h st) = lineIndex st"
  "remainingLinesInParagraph (consume h st) = remainingLinesInParagraph st"
  "colonEncountered (consume h st) = colonEncountered st"
  "afterColonLineIndex (consume h st) = afterColonLineIndex st"
  "lastLineOfParagraph (consume h st) = lastLineOfParagraph st"
  by (simp_all add: consume_def)

lemma clearColon_fields:
  "donePages (clearColon st) = donePages st"
  "page (clearColon st) = page st"
  "yPos (clearColon st) = yPos st"
  "remainingSpace (clearColon st) = remainingSpace st"
  "lineIndex (clearColon st) = lineIndex st"
  "remainingLinesInParagraph (clearColon st) = remainingLinesInParagraph st"
  by (simp_all add: clearColon_def)

lemma lookahead_fields:
  "donePages (lookahead a i st) = donePages st"
  "page (lookahead a i st) = page st"
  "yPos (lookahead a i st) = yPos st"
  "remainingSpace (lookahead a i st) = remainingSpace st"
  "lineIndex (lookahead a i st) = lineIndex st"
  "remainingLinesInParagraph (lookahead a i st) =
     (if flagAt (a_isFirstLine a) i then calculateRemainingLinesInParagraph a i
      else remainingLinesInParagraph st)"
  by (simp_all add: lookahead_def)

lemma placeBreak_fields:
  "donePages (placeBreak a st) = donePages st"
  "page (placeBreak a st) = page st"
  "lineIndex (placeBreak a st) = lineIndex st"
  "remainingLinesInParagraph (placeBreak a st) = remainingLinesInParagraph st"
  by (simp_all add: placeBreak_def Let_def consume_fields clearColon_fields)

lemma placeText_fields:
  "donePages (placeText a i st) = donePages st"
  "page (placeText a i st) =
     page st @ drawJustifiedLine (a_lines a ! i) (a_margin a) (yPos st) (a_fontSize a)
                (a_chapterTitleFontSize a) (a_font a) (a_textMaxWidth a)
                (flagAt (a_isLastLine a) i) (flagAt (a_isFirstLine a) i) (isChapterTitle a i)"
  "lineIndex (placeText a i st) = lineIndex st"
  "remainingLinesInParagraph (placeText a i st) = remainingLinesInParagraph st - 1"
  by (simp_all add: placeText_def Let_def consume_fields clearColon_fields)

lemma placeLine_fields:
  "donePages (placeLine a i st) = donePages st"
  "page (placeLine a i st) = page st @ lineCommands a i (yPos st)"
  "lineIndex (placeLine a i st) = lineIndex st"
  "remainingLinesInParagraph (placeLine a i st) =
     remainingLinesInParagraph st - (if a_lines a ! i = [] then 0 else 1)"
  by (simp_all add: placeLine_def lineCommands_def placeBreak_fields placeText_fields)

text \<open>Each of the four page-break rules leaves the state or starts a new page.\<close>

lemma chapterRule_cases: "chapterRule a i st = st \<or> chapterRule a i st = startNewPage a st"
  by (simp add: chapterRule_def)

lemma orphanRule_cases: "orphanRule a st = st \<or> orphanRule a st = startNewPage a st"
  by (simp add: orphanRule_def)

lemma widowRule_cases: "widowRule a i st = st \<or> widowRule a i st = startNewPage a st"
  by (simp add: widowRule_def)

lemma minSpaceRule_cases: "minSpaceRule a st = st \<or> minSpaceRule a st = startNewPage a st"
  by (simp add: minSpaceRule_def)

lemma freshPage_startNewPage: "freshPage a (startNewPage a st)"
  by (simp add: freshPage_def startNewPage_fields)

lemma freshPage_rules:
  assumes "freshPage a st"
  shows "freshPage a (lookahead a i st)" "freshPage a (orphanRule a st)"
    "freshPage a (widowRule a i st)" "freshPage a (minSpaceRule a st)"
proof -
  show "freshPage a (lookahead a i st)"
    using assms by (simp add: freshPage_def lookahead_fields)
  show "freshPage a (orphanRule a st)"
    using assms orphanRule_cases [of a st] freshPage_startNewPage [of a st] by auto
  show "freshPage a (widowRule a i st)"
    using assms widowRule_cases [of a i st] freshPage_startNewPage [of a st] by auto
  show "freshPage a (minSpaceRule a st)"
    using assms minSpaceRule_cases [of a st] freshPage_startNewPage [of a st] by auto
qed

lemma donePages_rules:
  "length (donePages st) \<le> length (donePages (chapterRule a i st))"
  "length (donePages st) \<le> length (donePages (orphanRule a st))"
  "length (donePages st) \<le> length (donePages (widowRule a i st))"
  "length (donePages st) \<le> length (donePages (minSpaceRule a st))"
proof -
  have n: "length (donePages st) \<le> length (donePages (startNewPage a st))"
    by (simp add: startNewPage_fields)
  show "length (donePages st) \<le> length (donePages (chapterRule a i st))"
    using chapterRule_cases [of a i st] n by auto
  show "length (donePages st) \<le> length (donePages (orphanRule a st))"
    using orphanRule_cases [of a st] n by auto
  show "length (donePages st) \<le> length (donePages (widowRule a i st))"
    using widowRule_cases [of a i st] n by auto
  show "length (donePages st) \<le> length (donePages (minSpaceRule a st))"
    using minSpaceRule_cases [of a st] n by auto
qed

lemma lineIndex_rules:
  "lineIndex (chapterRule a i st) = lineIndex st"
  "lineIndex (orphanRule a st) = lineIndex st"
  "lineIndex (widowRule a i st) = lineIndex st"
  "lineIndex (minSpaceRule a st) = lineIndex st"
  by (simp_all add: chapterRule_def orphanRule_def widowRule_def minSpaceRule_def
        startNewPage_fields)

lemma lineIndex_processLine: "lineIndex (processLine a st i) = lineIndex st + 1"
  by (simp add: processLine_def Let_def placeLine_fields lineIndex_rules lookahead_fields)

lemma runLines_Suc: "runLines a st (Suc k) = processLine a (runLines a st k) k"
  by (simp add: runLines_def)

lemma lineIndex_runLines: "lineIndex (runLines a st k) = lineIndex st + k"
  by (induction k) (simp_all add: runLines_Suc lineIndex_processLine, simp add: runLines_def)

text \<open>The line of a chapter index is placed alone at the top of a page started for it.\<close>

lemma processLine_chapter:
  assumes "lineIndex st \<in> set (a_newChapterIndices a)"
  shows "page (processLine a st i) = lineCommands a i (pageTop a)"
    and "length (donePages st) < length (donePages (processLine a st i))"
proof -
  let ?s1 = "chapterRule a i st"
  let ?s2 = "lookahead a i ?s1"
  let ?s3 = "orphanRule a ?s2"
  let ?s4 = "widowRule a i ?s3"
  let ?s5 = "minSpaceRule a ?s4"
  have s1: "?s1 = startNewPage a st" using assms by (simp add: chapterRule_def)
  have f1: "freshPage a ?s1" unfolding s1 by (rule freshPage_startNewPage)
  have f5: "freshPage a ?s5" by (intro freshPage_rules f1)
  have d1: "length (donePages st) < length (donePages ?s1)"
    unfolding s1 by (simp add: startNewPage_fields)
  have d2: "donePages ?s2 = donePages ?s1" by (simp add: lookahead_fields)
  have "length (donePages ?s2) \<le> length (donePages ?s3)" by (rule donePages_rules)
  also have "\<dots> \<le> length (donePages ?s4)" by (rule donePages_rules)
  also have "\<dots> \<le> length (donePages ?s5)" by (rule donePages_rules)
  finally have d5: "length (donePages st) < length (donePages ?s5)" using d1 d2 by simp
  show "page (processLine a st i) = lineCommands a i (pageTop a)"
    using f5 by (simp add: processLine_def Let_def placeLine_fields freshPage_def)
  show "length (donePages st) < length (donePages (processLine a st i))"
    using d5 by (simp add: processLine_def Let_def placeLine_fields)
qed

lemma extends_refl: "extends d d"
  by (simp add: extends_def)

lemma extends_trans: "extends d d' \<Longrightarrow> extends d' d'' \<Longrightarrow> extends d d''"
  unfolding extends_def
  by (meson le_trans less_le_trans prefix_order.trans)

lemma extends_startNewPage: "extends (document st) (document (startNewPage a st))"
  by (simp add: extends_def document_def startNewPage_fields nth_append)

lemma extends_append:
  assumes "donePages st' = donePages st" and "page st' = page st @ extra"
  shows "extends (document st) (document st')"
  using assms by (simp add: extends_def document_def nth_append)

lemma extends_rules:
  "extends (document st) (document (chapterRule a i st))"
  "extends (document st) (document (lookahead a i st))"
  "extends (document st) (document (orphanRule a st))"
  "extends (document st) (document (widowRule a i st))"
  "extends (document st) (document (minSpaceRule a st))"
  "extends (document st) (document (placeLine a i st))"
proof -
  show "extends (document st) (document (chapterRule a i st))"
    using chapterRule_cases [of a i st] extends_startNewPage [of st a] extends_refl by auto
  show "extends (document st) (document (lookahead a i st))"
    by (rule extends_append [where extra = "[]"]) (simp_all add: lookahead_fields)
  show "extends (document st) (document (orphanRule a st))"
    using orphanRule_cases [of a st] extends_startNewPage [of st a] extends_refl by auto
  show "extends (document st) (document (widowRule a i st))"
    using widowRule_cases [of a i st] extends_startNewPage [of st a] extends_refl by auto
  show "extends (document st) (document (minSpaceRule a st))"
    using minSpaceRule_cases [of a st] extends_startNewPage [of st a] extends_refl by auto
  show "extends (document st) (document (placeLine a i st))"
    by (rule extends_append) (simp_all add: placeLine_fields)
qed

lemma document_lineIndex_update: "document (st\<lparr>lineIndex := n\<rparr>) = document st"
  by (simp add: document_def)

lemma extends_processLine: "extends (document st) (document (processLine a st i))"
proof -
  let ?s1 = "chapterRule a i st"
  let ?s2 = "lookahead a i ?s1"
  let ?s3 = "orphanRule a ?s2"
  let ?s4 = "widowRule a i ?s3"
  let ?s5 = "minSpaceRule a ?s4"
  have e1: "extends (document st) (document ?s1)" by (rule extends_rules)
  have e2: "extends (document st) (document ?s2)"
    by (rule extends_trans [OF e1 extends_rules(2)])
  have e3: "extends (document st) (document ?s3)"
    by (rule extends_trans [OF e2 extends_rules(3)])
  have e4: "extends (document st) (document ?s4)"
    by (rule extends_trans [OF e3 extends_rules(4)])
  have e5: "extends (document st) (document ?s5)"
    by (rule extends_trans [OF e4 extends_rules(5)])
  have "extends (document st) (document (placeLine a i ?s5))"
    by (rule extends_trans [OF e5 extends_rules(6)])
  then show ?thesis
    by (simp add: processLine_def Let_def document_lineIndex_update)
qed

lemma extends_foldl: "extends (document st) (document (foldl (processLine a) st ks))"
proof (induction ks arbitrary: st)
  case Nil
  show ?case by (simp add: extends_refl)
next
  case (Cons k ks)
  show ?case
    using extends_trans [OF extends_processLine Cons] by simp
qed

lemma runLines_split:
  "j \<le> k \<Longrightarrow> runLines a st k = foldl (processLine a) (runLines a st j) [j..<k]"
proof -
  assume "j \<le> k"
  then have "[0..<k] = [0..<j] @ [j..<k]"
    using upt_add_eq_append [of 0 j "k - j"] by simp
  then show ?thesis by (simp add: runLines_def)
qed

lemma extends_runLines:
  "j \<le> k \<Longrightarrow> extends (document (runLines a st j)) (document (runLines a st k))"
  by (simp add: runLines_split [of j k] extends_foldl)

lemma extends_current_page:
  assumes "extends (document st) d'"
  shows "prefix (page st) (d' ! length (donePages st))"
proof -
  have "length (donePages st) < length (document st)" by (simp add: document_def)
  then have "prefix (document st ! length (donePages st)) (d' ! length (donePages st))"
    using assms unfolding extends_def by blast
  then show ?thesis by (simp add: document_def)
qed

text \<open>
  Claim C8. For a line whose index is among the chapter indices, in the run of
  \<open>drawTextLines\<close> from any document: a page is added before the line is placed; after
  the line the current page holds the calls of this line and nothing else, drawn with
  the cursor at the top of the page; and in the finished document that page still
  begins with them.
\<close>

theorem chapter_start_is_first_on_its_page:
  assumes "i < length (a_lines a)" and "i \<in> set (a_newChapterIndices a)"
  shows "length (document (runLines a (initialState a earlier pg) i))
           < length (document (runLines a (initialState a earlier pg) (Suc i)))
         \<and> page (runLines a (initialState a earlier pg) (Suc i)) = lineCommands a i (pageTop a)
         \<and> prefix (lineCommands a i (pageTop a))
             (document (drawTextLines a earlier pg)
                ! length (donePages (runLines a (initialState a earlier pg) (Suc i))))"
proof -
  let ?before = "runLines a (initialState a earlier pg) i"
  let ?after = "runLines a (initialState a earlier pg) (Suc i)"
  have "lineIndex ?before = i"
    by (simp add: lineIndex_runLines initialState_def)
  then have idx: "lineIndex ?before \<in> set (a_newChapterIndices a)"
    using assms(2) by simp
  have after: "?after = processLine a ?before i" by (rule runLines_Suc)
  have pg: "page ?after = lineCommands a i (pageTop a)"
    unfolding after by (rule processLine_chapter(1) [OF idx])
  have grow: "length (document ?before) < length (document ?after)"
    unfolding after using processLine_chapter(2) [OF idx, of i] by (simp add: document_def)
  have "extends (document ?after) (document (drawTextLines a earlier pg))"
    unfolding drawTextLines_def using assms(1) by (intro extends_runLines) simp
  then have "prefix (page ?after)
               (document (drawTextLines a earlier pg) ! length (donePages ?after))"
    by (rule extends_current_page)
  then have "prefix (lineCommands a i (pageTop a))
               (document (drawTextLines a earlier pg) ! length (donePages ?after))"
    using pg by simp
  then show ?thesis using pg grow by simp
qed

theorem chapter_start_is_first_on_its_page_witness:
  "1 < length (a_lines chapterArgs) \<and> 1 \<in> set (a_newChapterIndices chapterArgs)
   \<and> length (document (runLines chapterArgs (initialState chapterArgs [] []) 1))
           < length (document (runLines chapterArgs (initialState chapterArgs [] []) (Suc 1)))
   \<and> page (runLines chapterArgs (initialState chapterArgs [] []) (Suc 1))
       = [DrawText ''CHAPTER 1. ONE.'' 100 700 18]
   \<and> prefix [DrawText ''CHAPTER 1. ONE.'' 100 700 18]
        (document (drawTextLines chapterArgs [] [])
           ! length (donePages (runLines chapterArgs (initialState chapterArgs [] []) (Suc 1))))"
proof -
  have h1: "1 < length (a_lines chapterArgs)" by (simp add: chapterArgs_def)
  have h2: "1 \<in> set (a_newChapterIndices chapterArgs)" by (simp add: chapterArgs_def)
  have c: "lineCommands chapterArgs 1 (pageTop chapterArgs) = [DrawText ''CHAPTER 1. ONE.'' 100 700 18]"
    by code_simp
  show ?thesis
    using chapter_start_is_first_on_its_page [OF h1 h2, of "[]" "[]"] h1 h2
    unfolding c by simp
qed

text \<open>Pages before the current one are never changed.\<close>

lemma donePages_prefix_rules:
  "prefix (donePages st) (donePages (chapterRule a i st))"
  "prefix (donePages st) (donePages (orphanRule a st))"
  "prefix (donePages st) (donePages (widowRule a i st))"
  "prefix (donePages st) (donePages (minSpaceRule a st))"
proof -
  have n: "prefix (donePages st) (donePages (startNewPage a st))"
    by (simp add: startNewPage_fields)
  show "prefix (donePages st) (donePages (chapterRule a i st))"
    using chapterRule_cases [of a i st] n by auto
  show "prefix (donePages st) (donePages (orphanRule a st))"
    using orphanRule_cases [of a st] n by auto
  show "prefix (donePages st) (donePages (widowRule a i st))"
    using widowRule_cases [of a i st] n by auto
  show "prefix (donePages st) (donePages (minSpaceRule a st))"
    using minSpaceRule_cases [of a st] n by auto
qed

lemma donePages_prefix_after_rules:
  "prefix (donePages st)
     (donePages (minSpaceRule a (widowRule a i (orphanRule a (lookahead a i st)))))"
proof -
  let ?s2 = "lookahead a i st"
  let ?s3 = "orphanRule a ?s2"
  let ?s4 = "widowRule a i ?s3"
  have "prefix (donePages st) (donePages ?s3)"
    using donePages_prefix_rules(2) [of ?s2 a] by (simp add: lookahead_fields)
  then have "prefix (donePages st) (donePages ?s4)"
    using donePages_prefix_rules(3) [of ?s3 a i] by (rule prefix_order.trans)
  then show ?thesis
    using donePages_prefix_rules(4) [of ?s4 a] by (rule prefix_order.trans)
qed

lemma donePages_prefix_processLine:
  "prefix (donePages st) (donePages (processLine a st i))"
proof -
  have "prefix (donePages (chapterRule a i st)) (donePages (processLine a st i))"
    using donePages_prefix_after_rules [of "chapterRule a i st" a i]
    by (simp add: processLine_def Let_def placeLine_fields)
  with donePages_prefix_rules(1) [of st a i] show ?thesis
    by (rule prefix_order.trans)
qed

lemma donePages_prefix_foldl:
  "prefix (donePages st) (donePages (foldl (processLine a) st ks))"
proof (induction ks arbitrary: st)
  case Nil
  show ?case by simp
next
  case (Cons k ks)
  show ?case
    using prefix_order.trans [OF donePages_prefix_processLine Cons] by simp
qed

lemma processLine_chapter_leaves_page:
  assumes "lineIndex st \<in> set (a_newChapterIndices a)"
  shows "prefix (donePages st @ [page st]) (donePages (processLine a st i))"
proof -
  have "chapterRule a i st = startNewPage a st"
    using assms by (simp add: chapterRule_def)
  then have "donePages (chapterRule a i st) = donePages st @ [page st]"
    by (simp add: startNewPage_fields)
  then show ?thesis
    using donePages_prefix_after_rules [of "chapterRule a i st" a i]
    by (simp add: processLine_def Let_def placeLine_fields)
qed

text \<open>
  When index 0 is a chapter index, the page the document starts with stays empty and
  the lines are laid out from the second page on.
\<close>

lemma first_chapter_blank_page:
  assumes "a_lines a \<noteq> []" and "0 \<in> set (a_newChapterIndices a)"
  shows "\<exists>rest. document (drawTextLines a [] []) = [] # rest \<and> rest \<noteq> []"
proof -
  let ?init = "initialState a [] []"
  have "lineIndex ?init \<in> set (a_newChapterIndices a)"
    using assms(2) by (simp add: initialState_def)
  then have "prefix (donePages ?init @ [page ?init]) (donePages (processLine a ?init 0))"
    by (rule processLine_chapter_leaves_page)
  then have one: "prefix [[]] (donePages (runLines a ?init 1))"
    by (simp add: initialState_def runLines_def)
  have "1 \<le> length (a_lines a)" using assms(1) by (cases "a_lines a") simp_all
  then have "drawTextLines a [] [] = foldl (processLine a) (runLines a ?init 1) [1..<length (a_lines a)]"
    unfolding drawTextLines_def by (rule runLines_split)
  then have "prefix (donePages (runLines a ?init 1)) (donePages (drawTextLines a [] []))"
    by (simp add: donePages_prefix_foldl)
  with one have "prefix [[]] (donePages (drawTextLines a [] []))"
    by (rule prefix_order.trans)
  then obtain ps where "donePages (drawTextLines a [] []) = [] # ps"
    by (auto simp: prefix_def)
  then show ?thesis by (simp add: document_def)
qed

lemma showNat_1: "showNat (Suc 0) = ''1''"
  by code_simp

lemma addPageNumbers_first:
  "addPageNumbers pageNumberFont width ([] # rest) ! 0 =
     [DrawText ''1'' (width / 2 - pageNumberFont ''1'' 10 / 2) 80 10,
      DrawRectangle (width / 2 - pageNumberFont ''1'' 10 / 2 - 5) 95
        (pageNumberFont ''1'' 10 + 10) 0.5]"
proof -
  have "addPageNumbers pageNumberFont width ([] # rest) ! 0 =
          pageNumberOverlay pageNumberFont width 0"
    unfolding addPageNumbers_def by (simp add: upt_conv_Cons del: upt_Suc)
  then show ?thesis
    by (simp add: pageNumberOverlay_def Let_def showNat_1 del: showNat.simps)
qed

lemma length_addPageNumbers: "length (addPageNumbers pageNumberFont width pages) = length pages"
  by (simp add: addPageNumbers_def)

text \<open>
  Claim C10. When the first line of the line stream is a chapter start, the document
  \<open>createPDF\<close> saves has at least two pages and its first page holds the overlay for
  page number 1 and nothing else: the page the document was created with received no
  line, and the text starts on the page numbered 2.
\<close>

theorem first_chapter_leaves_blank_first_page:
  assumes "0 \<in> set (getNewChapterIndices
                      (r_lines (createLines (paragraphsAsWordArrays textContent) font 14
                                  (width - 2 * 100))))"
  shows "2 \<le> length (createPDF font pageNumberFont width height textContent)
         \<and> createPDF font pageNumberFont width height textContent ! 0 =
             [DrawText ''1'' (width / 2 - pageNumberFont ''1'' 10 / 2) 80 10,
              DrawRectangle (width / 2 - pageNumberFont ''1'' 10 / 2 - 5) 95
                (pageNumberFont ''1'' 10 + 10) 0.5]"
proof -
  let ?arrs = "createLines (paragraphsAsWordArrays textContent) font 14 (width - 2 * 100)"
  let ?a = "\<lparr>a_lines = r_lines ?arrs, a_margin = 100, a_pageHeight = height,
             a_fontSize = 14, a_chapterTitleFontSize = 18,
             a_font = font, a_lineHeight = 20,
             a_paragraphBreakHeight = 10,
             a_textMaxWidth = width - 2 * 100,
             a_newChapterIndices = getNewChapterIndices (r_lines ?arrs),
             a_isLastLine = r_isLastLine ?arrs, a_isFirstLine = r_isFirstLine ?arrs\<rparr>"
  have pdf: "createPDF font pageNumberFont width height textContent =
               addPageNumbers pageNumberFont width (document (drawTextLines ?a [] []))"
    by (simp add: createPDF_def Let_def)
  have "r_lines ?arrs \<noteq> []"
    using assms by (auto simp: getNewChapterIndices_def)
  then have "a_lines ?a \<noteq> []" by simp
  moreover have "0 \<in> set (a_newChapterIndices ?a)" using assms by simp
  ultimately obtain rest where
    doc: "document (drawTextLines ?a [] []) = [] # rest" and rest: "rest \<noteq> []"
    using first_chapter_blank_page [of ?a] by blast
  have "2 \<le> length ([] # rest)" using rest by (cases rest) simp_all
  then show ?thesis
    unfolding pdf doc by (simp add: length_addPageNumbers addPageNumbers_first)
qed

theorem first_chapter_leaves_blank_first_page_witness:
  "0 \<in> set (getNewChapterIndices
               (r_lines (createLines
                  (paragraphsAsWordArrays (''CHAPTER 1. Start.'' @ [CHR 0x0A] @ ''Some text here''))
                  monoWidth 14 (600 - 2 * 100))))
   \<and> 2 \<le> length (createPDF monoWidth monoWidth 600 800
                    (''CHAPTER 1. Start.'' @ [CHR 0x0A] @ ''Some text here''))
   \<and> createPDF monoWidth monoWidth 600 800
        (''CHAPTER 1. Start.'' @ [CHR 0x0A] @ ''Some text here'') ! 0 =
       [DrawText ''1'' (595 / 2) 80 10, DrawRectangle (585 / 2) 95 15 (1 / 2)]"
proof -
  have h: "0 \<in> set (getNewChapterIndices
               (r_lines (createLines
                  (paragraphsAsWordArrays (''CHAPTER 1. Start.'' @ [CHR 0x0A] @ ''Some text here''))
                  monoWidth 14 (600 - 2 * 100))))"
    by code_simp
  have m: "monoWidth ''1'' 10 = 5" by (simp add: monoWidth_def)
  show ?thesis
    using h first_chapter_leaves_blank_first_page [OF h, of monoWidth 800]
    by (simp add: m)
qed


lemma remaining_rules:
  "remainingLinesInParagraph (chapterRule a i st) = remainingLinesInParagraph st"
  "remainingLinesInParagraph (orphanRule a st) = remainingLinesInParagraph st"
  "remainingLinesInParagraph (widowRule a i st) = remainingLinesInParagraph st"
  "remainingLinesInParagraph (minSpaceRule a st) = remainingLinesInParagraph st"
  by (simp_all add: chapterRule_def orphanRule_def widowRule_def minSpaceRule_def
        startNewPage_fields)

lemma remaining_processLine:
  "remainingLinesInParagraph (processLine a st k) =
     (if flagAt (a_isFirstLine a) k then calculateRemainingLinesInParagraph a k
      else remainingLinesInParagraph st)
     - (if a_lines a ! k = [] then 0 else 1)"
  by (simp add: processLine_def Let_def placeLine_fields remaining_rules lookahead_fields)

text \<open>
  Inside a paragraph that starts at index \<open>s\<close>, each line drawn takes one from the
  count the lookahead made at \<open>s\<close>.
\<close>

lemma remaining_in_paragraph:
  assumes "s \<le> i" and "flagAt (a_isFirstLine a) s"
    and "\<forall>k. s < k \<and> k \<le> i \<longrightarrow> \<not> flagAt (a_isFirstLine a) k"
    and "\<forall>k. s \<le> k \<and> k \<le> i \<longrightarrow> a_lines a ! k \<noteq> []"
  shows "remainingLinesInParagraph (runLines a st (Suc i)) =
           calculateRemainingLinesInParagraph a s - int (i - s) - 1"
  using assms
proof (induction i)
  case 0
  then have "s = 0" by simp
  then show ?case
    using 0 by (simp add: runLines_Suc remaining_processLine)
next
  case (Suc i)
  show ?case
  proof (cases "s = Suc i")
    case True
    then show ?thesis
      using Suc.prems by (simp add: runLines_Suc [of a st "Suc i"] remaining_processLine)
  next
    case False
    then have le: "s \<le> i" using Suc.prems(1) by simp
    have ih: "remainingLinesInParagraph (runLines a st (Suc i)) =
                calculateRemainingLinesInParagraph a s - int (i - s) - 1"
      using Suc.IH le Suc.prems by simp
    have nf: "\<not> flagAt (a_isFirstLine a) (Suc i)"
      using Suc.prems(3) le by simp
    have ne: "a_lines a ! Suc i \<noteq> []" using Suc.prems(4) le by simp
    have "int (Suc i - s) = int (i - s) + 1" using le by simp
    then show ?thesis
      using ih nf ne by (simp add: runLines_Suc [of a st "Suc i"] remaining_processLine)
  qed
qed

lemma processLine_afterOrphanRule:
  "processLine a st i = afterOrphanRule a i (orphanRule a (lookahead a i (chapterRule a i st)))"
  by (simp add: processLine_def afterOrphanRule_def)

lemma afterOrphanRule_fresh:
  assumes "freshPage a st"
  shows "page (afterOrphanRule a i st) = lineCommands a i (pageTop a)"
    and "length (donePages st) \<le> length (donePages (afterOrphanRule a i st))"
proof -
  let ?s4 = "widowRule a i st"
  let ?s5 = "minSpaceRule a ?s4"
  have f5: "freshPage a ?s5" by (intro freshPage_rules assms)
  show "page (afterOrphanRule a i st) = lineCommands a i (pageTop a)"
    using f5 by (simp add: afterOrphanRule_def Let_def placeLine_fields freshPage_def)
  have "length (donePages st) \<le> length (donePages ?s4)" by (rule donePages_rules)
  also have "\<dots> \<le> length (donePages ?s5)" by (rule donePages_rules)
  finally show "length (donePages st) \<le> length (donePages (afterOrphanRule a i st))"
    by (simp add: afterOrphanRule_def Let_def placeLine_fields)
qed

lemma afterOrphanRule_plain:
  assumes "\<not> flagAt (a_isFirstLine a) i" and "\<not> remainingSpace st < a_lineHeight a"
  shows "donePages (afterOrphanRule a i st) = donePages st"
    and "page (afterOrphanRule a i st) = page st @ lineCommands a i (yPos st)"
proof -
  have "minSpaceRule a (widowRule a i st) = st"
    using assms by (simp add: widowRule_def minSpaceRule_def)
  then show "donePages (afterOrphanRule a i st) = donePages st"
    and "page (afterOrphanRule a i st) = page st @ lineCommands a i (yPos st)"
    by (simp_all add: afterOrphanRule_def Let_def placeLine_fields)
qed

text \<open>
  Claim C3, as amended. In the run of the engine, at a line \<open>i\<close> of the paragraph that
  starts at \<open>s\<close> (its first line or a later one, the lines before it drawn), the
  orphan rule works on the lines of the paragraph still to be placed. The state after
  the line is the rest of the iteration applied to a new page when these lines are at
  most 3 and the remaining space is less than that many line heights, and to the
  state as it was otherwise. In the first case the document has gained a page and the
  line is alone at the top of the current page, also in the middle of a paragraph. At a
  later line of a paragraph that is no chapter start, with room for a line, the page is
  kept otherwise and the line is added to it.
\<close>

theorem orphan_rule_in_the_run:
  assumes "s \<le> i" and "flagAt (a_isFirstLine a) s"
    and "\<forall>k. s < k \<and> k \<le> i \<longrightarrow> \<not> flagAt (a_isFirstLine a) k"
    and "\<forall>k. s \<le> k \<and> k < i \<longrightarrow> a_lines a ! k \<noteq> []"
  shows "runLines a st (Suc i) =
           afterOrphanRule a i
             (if linesLeft a s i \<le> 3
                 \<and> remainingSpace (beforeOrphanRule a st i)
                     < real_of_int (linesLeft a s i) * a_lineHeight a
              then startNewPage a (beforeOrphanRule a st i)
              else beforeOrphanRule a st i)
         \<and> (linesLeft a s i \<le> 3
              \<and> remainingSpace (beforeOrphanRule a st i)
                  < real_of_int (linesLeft a s i) * a_lineHeight a
            \<longrightarrow> length (document (runLines a st i)) < length (document (runLines a st (Suc i)))
                \<and> page (runLines a st (Suc i)) = lineCommands a i (pageTop a))
         \<and> (s < i
              \<and> \<not> isChapterTitle a i \<and> lineIndex (runLines a st i) \<notin> set (a_newChapterIndices a)
              \<and> \<not> (linesLeft a s i \<le> 3
                     \<and> remainingSpace (runLines a st i)
                         < real_of_int (linesLeft a s i) * a_lineHeight a)
              \<and> \<not> remainingSpace (runLines a st i) < a_lineHeight a
            \<longrightarrow> donePages (runLines a st (Suc i)) = donePages (runLines a st i)
                \<and> page (runLines a st (Suc i))
                    = page (runLines a st i) @ lineCommands a i (yPos (runLines a st i)))"
proof -
  let ?R = "runLines a st i"
  let ?B = "beforeOrphanRule a st i"
  let ?cond = "linesLeft a s i \<le> 3
                 \<and> remainingSpace ?B < real_of_int (linesLeft a s i) * a_lineHeight a"
  have left: "remainingLinesInParagraph ?B = linesLeft a s i"
  proof (cases "s = i")
    case True
    then show ?thesis
      using assms(2) by (simp add: beforeOrphanRule_def lookahead_fields linesLeft_def)
  next
    case False
    then obtain j where j: "i = Suc j" "s \<le> j"
      using assms(1) by (cases i) auto
    have "remainingLinesInParagraph (runLines a st (Suc j)) =
            calculateRemainingLinesInParagraph a s - int (j - s) - 1"
      using assms j by (intro remaining_in_paragraph) auto
    moreover have "\<not> flagAt (a_isFirstLine a) i" using assms(3) j by simp
    moreover have "int (i - s) = int (j - s) + 1" using j by simp
    ultimately show ?thesis
      using j by (simp add: beforeOrphanRule_def lookahead_fields remaining_rules linesLeft_def)
  qed
  have rule: "orphanRule a ?B = (if ?cond then startNewPage a ?B else ?B)"
    unfolding orphanRule_def left by simp
  have run: "runLines a st (Suc i) = afterOrphanRule a i (orphanRule a ?B)"
    by (simp add: runLines_Suc processLine_afterOrphanRule beforeOrphanRule_def)
  have c1: "runLines a st (Suc i) = afterOrphanRule a i (if ?cond then startNewPage a ?B else ?B)"
    unfolding run rule ..
  have c2: "length (document ?R) < length (document (runLines a st (Suc i)))
            \<and> page (runLines a st (Suc i)) = lineCommands a i (pageTop a)" if ?cond
  proof -
    have eq: "runLines a st (Suc i) = afterOrphanRule a i (startNewPage a ?B)"
      unfolding c1 using that by simp
    have "length (donePages ?R) \<le> length (donePages ?B)"
      using donePages_rules(1) [of ?R a i] by (simp add: beforeOrphanRule_def lookahead_fields)
    also have "\<dots> < length (donePages (startNewPage a ?B))"
      by (simp add: startNewPage_fields)
    also have "\<dots> \<le> length (donePages (afterOrphanRule a i (startNewPage a ?B)))"
      by (rule afterOrphanRule_fresh(2) [OF freshPage_startNewPage])
    finally have "length (document ?R) < length (document (runLines a st (Suc i)))"
      unfolding eq by (simp add: document_def)
    moreover have "page (runLines a st (Suc i)) = lineCommands a i (pageTop a)"
      unfolding eq by (rule afterOrphanRule_fresh(1) [OF freshPage_startNewPage])
    ultimately show ?thesis ..
  qed
  have c3: "donePages (runLines a st (Suc i)) = donePages ?R
            \<and> page (runLines a st (Suc i)) = page ?R @ lineCommands a i (yPos ?R)"
    if later: "s < i"
      and nochapter: "\<not> isChapterTitle a i" "lineIndex ?R \<notin> set (a_newChapterIndices a)"
      and nocond: "\<not> (linesLeft a s i \<le> 3
                        \<and> remainingSpace ?R < real_of_int (linesLeft a s i) * a_lineHeight a)"
      and room: "\<not> remainingSpace ?R < a_lineHeight a"
  proof -
    have ch: "chapterRule a i ?R = ?R" using nochapter by (simp add: chapterRule_def)
    have nf: "\<not> flagAt (a_isFirstLine a) i" using assms(3) later by simp
    have B: "?B = ?R" using nf by (simp add: beforeOrphanRule_def ch lookahead_def)
    have eq: "runLines a st (Suc i) = afterOrphanRule a i ?R"
      unfolding c1 B using nocond by auto
    show ?thesis
      unfolding eq using afterOrphanRule_plain [OF nf room] by simp
  qed
  show ?thesis using c1 c2 c3 by blast
qed

theorem orphan_rule_in_the_run_witness:
  "0 \<le> Suc 0 \<and> flagAt (a_isFirstLine shortPageArgs) 0
   \<and> \<not> flagAt (a_isFirstLine shortPageArgs) (Suc 0)
   \<and> a_lines shortPageArgs ! 0 \<noteq> []
   \<and> linesLeft shortPageArgs 0 (Suc 0) = 3
   \<and> remainingSpace (beforeOrphanRule shortPageArgs (initialState shortPageArgs [] []) (Suc 0)) = 50
   \<and> a_lineHeight shortPageArgs = 20
   \<and> length (document (runLines shortPageArgs (initialState shortPageArgs [] []) (Suc 0)))
       < length (document (runLines shortPageArgs (initialState shortPageArgs [] []) (Suc (Suc 0))))
   \<and> page (runLines shortPageArgs (initialState shortPageArgs [] []) (Suc (Suc 0)))
       = [DrawText ''b'' 100 170 14]"
proof -
  have h1: "0 \<le> Suc 0" by simp
  have h2: "flagAt (a_isFirstLine shortPageArgs) 0"
    by (simp add: shortPageArgs_def flagAt_def)
  have h3: "\<forall>k. 0 < k \<and> k \<le> Suc 0 \<longrightarrow> \<not> flagAt (a_isFirstLine shortPageArgs) k"
  proof (intro allI impI)
    fix k :: nat assume "0 < k \<and> k \<le> Suc 0"
    then have "k = Suc 0" by simp
    then show "\<not> flagAt (a_isFirstLine shortPageArgs) k"
      by (simp add: shortPageArgs_def flagAt_def)
  qed
  have h4: "\<forall>k. 0 \<le> k \<and> k < Suc 0 \<longrightarrow> a_lines shortPageArgs ! k \<noteq> []"
    by (simp add: shortPageArgs_def)
  have h3': "\<not> flagAt (a_isFirstLine shortPageArgs) (Suc 0)" using h3 by simp
  have h4': "a_lines shortPageArgs ! 0 \<noteq> []" using h4 by simp
  have c: "linesLeft shortPageArgs 0 (Suc 0) = 3"
    by code_simp
  have r: "remainingSpace
             (beforeOrphanRule shortPageArgs (initialState shortPageArgs [] []) (Suc 0)) = 50"
    by code_simp
  have l: "a_lineHeight shortPageArgs = 20" by (simp add: shortPageArgs_def)
  have cmds: "lineCommands shortPageArgs (Suc 0) (pageTop shortPageArgs) = [DrawText ''b'' 100 170 14]"
    by code_simp
  note t = orphan_rule_in_the_run
             [of 0 "Suc 0" shortPageArgs "initialState shortPageArgs [] []", OF h1 h2 h3 h4]
  have "length (document (runLines shortPageArgs (initialState shortPageArgs [] []) (Suc 0)))
          < length (document (runLines shortPageArgs (initialState shortPageArgs [] []) (Suc (Suc 0))))
        \<and> page (runLines shortPageArgs (initialState shortPageArgs [] []) (Suc (Suc 0)))
            = lineCommands shortPageArgs (Suc 0) (pageTop shortPageArgs)"
    using conjunct1 [OF conjunct2 [OF t]] by (simp add: c r l)
  then show ?thesis
    unfolding cmds using h2 h3' h4' c r l by blast
qed

text \<open>
  Claim C3, as stated, fails: the line of index 1 is not the first line of its
  paragraph, one line of which is on the page, and the rule starts a new page for it;
  the paragraph of four lines ends up with one line on the first page and three on
  the second.
\<close>

theorem orphanRule_breaks_inside_paragraph_counterexample:
  "\<not> flagAt (a_isFirstLine shortPageArgs) 1
   \<and> document (beforeOrphanRule shortPageArgs (initialState shortPageArgs [] []) 1)
       = [[DrawText ''a'' 118 170 14]]
   \<and> document (orphanRule shortPageArgs
                  (beforeOrphanRule shortPageArgs (initialState shortPageArgs [] []) 1))
       = [[DrawText ''a'' 118 170 14], []]
   \<and> document (drawTextLines shortPageArgs [] [])
       = [[DrawText ''a'' 118 170 14],
          [DrawText ''b'' 100 170 14, DrawText ''c'' 100 150 14, DrawText ''d'' 100 130 14]]"
  by code_simp

section \<open>Properties of the justification renderer\<close>

lemma drawWords_not_Nil:
  "words \<noteq> [] \<Longrightarrow> drawWords widthOf y sz sp add x words \<noteq> []"
  by (cases words) simp_all

lemma hd_drawWords:
  "words \<noteq> [] \<Longrightarrow> hd (drawWords widthOf y sz sp add x words) = DrawText (hd words) x y sz"
  by (cases words) simp_all

lemma last_drawWords:
  "words \<noteq> [] \<Longrightarrow>
     last (drawWords widthOf y sz sp add x words) =
       DrawText (last words)
         (x + (\<Sum>w\<leftarrow>butlast words. widthOf w sz) + real (length words - 1) * (sp + add)) y sz"
proof (induction words arbitrary: x)
  case Nil
  then show ?case by simp
next
  case (Cons w ws)
  show ?case
  proof (cases "ws = []")
    case True
    then show ?thesis by simp
  next
    case False
    then have len: "real (length ws - 1) = real (length ws) - 1"
      by (cases ws) simp_all
    have "last (drawWords widthOf y sz sp add x (w # ws)) =
            last (drawWords widthOf y sz sp add (x + (widthOf w sz + sp + add)) ws)"
      using drawWords_not_Nil [OF False] by simp
    also have "\<dots> = DrawText (last ws)
                 (x + (widthOf w sz + sp + add) + (\<Sum>w\<leftarrow>butlast ws. widthOf w sz)
                  + real (length ws - 1) * (sp + add)) y sz"
      by (rule Cons.IH [OF False])
    also have "x + (widthOf w sz + sp + add) + (\<Sum>w\<leftarrow>butlast ws. widthOf w sz)
                  + real (length ws - 1) * (sp + add)
               = x + (\<Sum>w\<leftarrow>butlast (w # ws). widthOf w sz)
                  + real (length (w # ws) - 1) * (sp + add)"
      using False unfolding len by (simp add: algebra_simps)
    finally show ?thesis using False by simp
  qed
qed

lemma sum_list_butlast_last:
  "ws \<noteq> [] \<Longrightarrow> (\<Sum>w\<leftarrow>butlast ws. f w) + f (last ws) = (\<Sum>w\<leftarrow>ws. (f w :: real))"
  by (induction ws) auto

text \<open>
  Where the width invariant of claim C9 holds: a line that is not the last of its
  paragraph, has two words or more and is drawn at the size it is measured in (it is
  not a chapter title, or the two sizes agree) covers the available width, for a width
  function that is additive on the line at the body size.
\<close>

lemma justified_line_covers_available_width:
  assumes words: "2 \<le> length (split_space line)"
    and size: "\<not> titleLine \<or> chapterTitleFontSize = fontSize"
    and additive: "widthOf line fontSize =
                     (\<Sum>w\<leftarrow>split_space line. widthOf w fontSize)
                     + real (length (split_space line) - 1) * widthOf '' '' fontSize"
  shows "lineExtent widthOf
           (drawJustifiedLine line margin y fontSize chapterTitleFontSize widthOf textMaxWidth
              False firstLine titleLine)
         = (if firstLine \<and> \<not> titleLine
            then textMaxWidth - indentationWidth else textMaxWidth)"
proof -
  let ?ws = "split_space line"
  let ?avail = "if firstLine \<and> \<not> titleLine
                then textMaxWidth - indentationWidth else textMaxWidth"
  let ?x = "if firstLine \<and> \<not> titleLine
            then margin + indentationWidth else margin"
  let ?sp = "widthOf '' '' fontSize"
  let ?n = "real (length ?ws - 1)"
  let ?add = "(?avail - widthOf line fontSize) / ?n"
  let ?cmds = "drawWords widthOf y fontSize ?sp ?add ?x ?ws"
  have ne: "?ws \<noteq> []" using words by auto
  have n: "?n > 0" using words by simp
  have cur: "(if titleLine then chapterTitleFontSize else fontSize) = fontSize"
    using size by auto
  have num: "int (length ?ws) - 1 > 0" using words by simp
  have rn: "real_of_int (int (length ?ws) - 1) = ?n" using words by simp
  have draw: "drawJustifiedLine line margin y fontSize chapterTitleFontSize widthOf textMaxWidth
                False firstLine titleLine = ?cmds"
    unfolding drawJustifiedLine_def Let_def cur using num rn by simp
  have "lineExtent widthOf ?cmds =
          ?x + (\<Sum>w\<leftarrow>butlast ?ws. widthOf w fontSize) + ?n * (?sp + ?add)
          + widthOf (last ?ws) fontSize - ?x"
    unfolding lineExtent_def
    using drawWords_not_Nil [OF ne] hd_drawWords [OF ne] last_drawWords [OF ne]
    by simp
  also have "\<dots> = (\<Sum>w\<leftarrow>?ws. widthOf w fontSize) + ?n * ?sp + ?n * ?add"
    using sum_list_butlast_last [OF ne, of "\<lambda>w. widthOf w fontSize"]
    by (simp add: algebra_simps)
  also have "?n * ?add = ?avail - widthOf line fontSize"
    using n by simp
  finally have "lineExtent widthOf ?cmds = ?avail"
    using additive by simp
  then show ?thesis unfolding draw .
qed

text \<open>
  Claim C9 fails on the code, for a chapter title that is not the last line of its
  paragraph. The gaps are computed from the width of the line at the body size (14),
  the words are drawn and advanced at the chapter-title size (18): with a font whose
  widths are additive, the line covers 420 where 400 are available.
\<close>

theorem justified_chapter_title_overshoots:
  "drawJustifiedLine ''CHAPTER 1. A'' 100 700 14 18 monoWidth 400 False True True =
     [DrawText ''CHAPTER'' 100 700 18, DrawText ''1.'' 328 700 18, DrawText ''A'' 511 700 18]
   \<and> lineExtent monoWidth
        (drawJustifiedLine ''CHAPTER 1. A'' 100 700 14 18 monoWidth 400 False True True) = 420
   \<and> monoWidth ''CHAPTER 1. A'' 14 =
        (\<Sum>w\<leftarrow>split_space ''CHAPTER 1. A''. monoWidth w 14)
        + real (length (split_space ''CHAPTER 1. A'') - 1) * monoWidth '' '' 14"
  by code_simp

end
